theory Spec2Isabelle
  imports Complex_Main "HOL-Library.Sublist"
begin

section \<open>The PyMOL script IC\_MBP\_docking.py\<close>

text \<open>
  The script is a set of six commands for the PyMOL host.  Each command is a sequence of
  calls into the host's \<^verbatim>\<open>cmd\<close> API.  The host is not part of the script, so it is a
  parameter of the model: a pair of functions over an arbitrary host state that answer a
  call either with an exception or with a value.  A run threads the host state through
  the calls and records every call together with the host's answer.  The list
  \<^verbatim>\<open>pymol.stored.r\<close>, which the script assigns and the host fills, is part of the
  state of a run.
\<close>

subsection \<open>Python values, exceptions, host commands\<close>

datatype pyobj =
    PNone
  | PInt int
  | PFloat real
  | PStr string
  | PTuple "pyobj list"
  | PList "pyobj list"

text \<open>The value of \<^verbatim>\<open>float(cutoff)\<close>: a finite float, an infinity or a NaN.\<close>

datatype pyfloat = Fin real | PosInf | NegInf | NaN

datatype exn = CmdException string | ValueError string | TypeError string

text \<open>
  One atom as \<^verbatim>\<open>cmd.iterate\<close> appends it to \<^verbatim>\<open>stored.r\<close>: (model, resi, b).
  The b column holds host-computed areas, which are finite floats; comparing finite
  floats is exact, so b is a real number here.
\<close>

type_synonym row = "string \<times> string \<times> real"

text \<open>The calls of the \<^verbatim>\<open>cmd\<close> API the script makes, with their arguments.\<close>

datatype cmd =
    Get string
  | Set string pyobj
  | Set_in string pyobj string
  | Unset string
  | Create string string
  | Disable string
  | Enable string
  | Remove string
  | Get_area string int
  | Alter string string
  | Extract string string
  | Iterate string string
  | Select string string
  | Delete string
  | Reinitialize
  | Load string
  | Set_name string string
  | Show string
  | Set_view "real list"
  | Rotate string int string
  | Translate "int list" string
  | Center
  | Move string int
  | Bg_color string
  | Set_color string "int list"
  | Color string string
  | Print string

datatype response = Failed exn | Returned pyobj | Yielded "row list"

type_synonym event = "cmd \<times> response"

subsection \<open>The host and a run against it\<close>

text \<open>
  \<open>cmd_call\<close> answers an API call.  \<open>cmd_iterate\<close> answers
  \<^verbatim>\<open>cmd.iterate(sel, 'stored.r.append((model,resi,b))')\<close> with the rows of the atoms
  of \<open>sel\<close>, in the order the host visits them.
\<close>

record 'h host =
  cmd_call :: "cmd \<Rightarrow> 'h \<Rightarrow> (exn + pyobj) \<times> 'h"
  cmd_iterate :: "string \<Rightarrow> string \<Rightarrow> 'h \<Rightarrow> (exn + row list) \<times> 'h"

text \<open>
  The state of a run: the state of the host, the calls issued so far with their answers,
  and the list \<^verbatim>\<open>stored.r\<close> (an unset \<^verbatim>\<open>stored.r\<close> is not told apart from an
  empty one: the script assigns it before it is used).
\<close>

record 'h world =
  host_state :: 'h
  issued :: "event list"
  stored_r :: "row list"

type_synonym ('h, 'a) comp = "'h world \<Rightarrow> (exn + 'a) \<times> 'h world"

definition ret :: "'a \<Rightarrow> ('h, 'a) comp" where
  "ret x w = (Inr x, w)"

definition raise :: "exn \<Rightarrow> ('h, 'a) comp" where
  "raise e w = (Inl e, w)"

text \<open>Sequencing: an exception of the first part ends the run, as no handler exists.\<close>

definition then_do :: "('h, 'a) comp \<Rightarrow> ('a \<Rightarrow> ('h, 'b) comp) \<Rightarrow> ('h, 'b) comp" where
  "then_do m f w = (case m w of (Inl e, w') \<Rightarrow> (Inl e, w') | (Inr x, w') \<Rightarrow> f x w')"

definition call :: "'h host \<Rightarrow> cmd \<Rightarrow> ('h, pyobj) comp" where
  "call h c w =
     (case cmd_call h c (host_state w) of
        (Inl e, s) \<Rightarrow> (Inl e, w\<lparr>host_state := s, issued := issued w @ [(c, Failed e)]\<rparr>)
      | (Inr v, s) \<Rightarrow> (Inr v, w\<lparr>host_state := s, issued := issued w @ [(c, Returned v)]\<rparr>))"

text \<open>
  \<^verbatim>\<open>stored.r = []\<close> (line 93) and the iteration (line 94).  The host appends the
  rows it visits to \<^verbatim>\<open>stored.r\<close>; the value of \<open>iterate\<close> is the rows appended,
  which on the list just emptied are the content of \<^verbatim>\<open>stored.r\<close> that line 98
  reads (the two calls in between leave it alone).  Nothing in the script empties or
  deletes \<^verbatim>\<open>stored.r\<close> afterwards.
\<close>

definition assign_stored_r :: "row list \<Rightarrow> ('h, unit) comp" where
  "assign_stored_r xs w = (Inr (), w\<lparr>stored_r := xs\<rparr>)"

definition iterate :: "'h host \<Rightarrow> string \<Rightarrow> string \<Rightarrow> ('h, row list) comp" where
  "iterate h sel expr w =
     (case cmd_iterate h sel expr (host_state w) of
        (Inl e, s) \<Rightarrow>
          (Inl e, w\<lparr>host_state := s, issued := issued w @ [(Iterate sel expr, Failed e)]\<rparr>)
      | (Inr rows, s) \<Rightarrow>
          (Inr rows, w\<lparr>host_state := s,
                       issued := issued w @ [(Iterate sel expr, Yielded rows)],
                       stored_r := stored_r w @ rows\<rparr>))"

text \<open>A block of calls whose return values the script ignores.\<close>

fun do_all :: "'h host \<Rightarrow> cmd list \<Rightarrow> ('h, unit) comp" where
  "do_all h [] = ret ()"
| "do_all h (c # cs) = then_do (call h c) (\<lambda>_. do_all h cs)"

text \<open>The events a run added to the record, their commands and the host's answers.\<close>

definition new_events :: "'h world \<Rightarrow> 'h world \<Rightarrow> event list" where
  "new_events w w' = drop (length (issued w)) (issued w')"

definition commands :: "event list \<Rightarrow> cmd list" where
  "commands t = map fst t"

definition responses :: "event list \<Rightarrow> response list" where
  "responses t = map snd t"

subsection \<open>interfaceResidues\<close>

text \<open>\<^verbatim>\<open>abs(diff) >= float(cutoff)\<close>, with Python's comparisons on infinities and NaN.\<close>

fun py_ge :: "real \<Rightarrow> pyfloat \<Rightarrow> bool" where
  "py_ge x (Fin c) = (c \<le> x)"
| "py_ge x PosInf = False"
| "py_ge x NegInf = True"
| "py_ge x NaN = False"

text \<open>\<^verbatim>\<open>key=resi+"-"+model\<close>\<close>

definition key_of :: "row \<Rightarrow> string" where
  "key_of r = (case r of (model, resi, diff) \<Rightarrow> resi @ ''-'' @ model)"

text \<open>
  The loop over \<^verbatim>\<open>stored.r\<close> (lines 98 to 108).  \<open>fl\<close> is Python's builtin
  \<^verbatim>\<open>float\<close>, a parameter: it converts the cutoff or raises.  It is evaluated in every
  iteration, so a cutoff it rejects raises at the first row and not at all on an empty
  list.
\<close>

fun residue_loop ::
  "'h host \<Rightarrow> ('c \<Rightarrow> exn + pyfloat) \<Rightarrow> 'c \<Rightarrow> string \<Rightarrow> row list \<Rightarrow> string list \<Rightarrow> row list
     \<Rightarrow> ('h, row list) comp" where
  "residue_loop h fl cutoff selName1 [] seen rVal = ret rVal"
| "residue_loop h fl cutoff selName1 ((model, resi, diff) # rest) seen rVal =
     (let key = resi @ ''-'' @ model in
      case fl cutoff of
        Inl e \<Rightarrow> raise e
      | Inr c \<Rightarrow>
          if py_ge \<bar>diff\<bar> c then
            if key \<in> set seen then residue_loop h fl cutoff selName1 rest seen rVal
            else
              then_do
                (call h (Select selName1
                   (selName1 @ '' or ('' @ model @ '' and i. '' @ resi @ '')'')))
                (\<lambda>_. residue_loop h fl cutoff selName1 rest
                        (seen @ [key]) (rVal @ [(model, resi, diff)]))
          else residue_loop h fl cutoff selName1 rest seen rVal)"

definition interfaceResidues ::
  "'h host \<Rightarrow> ('c \<Rightarrow> exn + pyfloat) \<Rightarrow> string \<Rightarrow> string \<Rightarrow> string \<Rightarrow> 'c \<Rightarrow> string
     \<Rightarrow> ('h, row list) comp" where
  "interfaceResidues h fl cmpx cA cB cutoff selName =
     then_do (call h (Get ''dot_solvent'')) (\<lambda>oldDS.
     then_do (call h (Set ''dot_solvent'' (PInt 1))) (\<lambda>_.
     let tempC = ''tempComplex''; selName1 = selName @ ''1'';
         chA = ''chA''; chB = ''chB'' in
     then_do (do_all h
       [Create tempC cmpx,
        Disable cmpx,
        Remove (tempC @ '' and not (polymer and ('' @ cA @ '' or '' @ cB @ ''))''),
        Get_area tempC 1,
        Alter tempC ''q=b'',
        Extract chA (tempC @ '' and ('' @ cA @ '')''),
        Extract chB (tempC @ '' and ('' @ cB @ '')''),
        Get_area chA 1,
        Get_area chB 1,
        Alter (chA @ '' or '' @ chB) ''b=b-q'']) (\<lambda>_.
     then_do (assign_stored_r []) (\<lambda>_.
     then_do (iterate h (chA @ '' or '' @ chB) ''stored.r.append((model,resi,b))'') (\<lambda>rows.
     then_do (do_all h [Enable cmpx, Select selName1 ''none'']) (\<lambda>_.
     then_do (residue_loop h fl cutoff selName1 rows [] []) (\<lambda>rVal.
     then_do (do_all h
       [Select selName (cmpx @ '' in '' @ selName1),
        Delete selName1,
        Delete chA,
        Delete chB,
        Delete tempC,
        Enable selName,
        Set ''dot_solvent'' oldDS]) (\<lambda>_.
     ret rVal))))))))"

subsection \<open>initial\_orientation and reset\_view\<close>

text \<open>\<^verbatim>\<open>path.split('/')\<close>: the pieces between slashes, never an empty list.\<close>

fun split_slash :: "string \<Rightarrow> string list" where
  "split_slash [] = [[]]"
| "split_slash (x # xs) =
     (if x = CHR ''/'' then [] # split_slash xs
      else (x # hd (split_slash xs)) # tl (split_slash xs))"

text \<open>
  \<^verbatim>\<open>filename.replace(".pdb", "")\<close>: every occurrence is removed, scanning from the left.
  The counter is the number of characters of a match still to be skipped.
\<close>

fun drop_pdb :: "nat \<Rightarrow> string \<Rightarrow> string" where
  "drop_pdb k [] = []"
| "drop_pdb (Suc k) (x # xs) = drop_pdb k xs"
| "drop_pdb 0 (x # xs) =
     (if prefix ''.pdb'' (x # xs) then drop_pdb 3 xs else x # drop_pdb 0 xs)"

definition model_name :: "string \<Rightarrow> string" where
  "model_name path =
     (let pathMtrx = split_slash path;
          filename = pathMtrx ! (length pathMtrx - 1)
      in drop_pdb 0 filename)"

definition initial_orientation :: "'h host \<Rightarrow> string \<Rightarrow> pyobj \<Rightarrow> ('h, pyobj) comp" where
  "initial_orientation h path config =
     then_do (do_all h
       [Reinitialize,
        Load path,
        Set_name (model_name path) ''OM'',
        Show ''surface'',
        Set_in ''surface_color'' (PStr ''skyblue'') ''chain A'',
        Set_in ''surface_color'' (PStr ''orange'') ''chain B'']) (\<lambda>_.
     if config = PStr ''1'' then
       then_do (call h (Set_view
         [0.547810793, 0.809414983, 0.211547419,
          - 0.178774685, 0.360282600, - 0.915552616,
          - 0.817279518, 0.463730723, 0.342069268,
          0.000000000, 0.000000000, - 257.350799561,
          28.792110443, 50.535285950, 52.779388428,
          202.897338867, 311.804260254, - 20.000000000])) (\<lambda>_. ret PNone)
     else if config = PStr ''2'' then
       then_do (call h (Set_view
         [- 0.739635348, - 0.367862731, - 0.563574135,
          0.143549025, - 0.904357791, 0.401908547,
          - 0.657520115, 0.216365919, 0.721703112,
          0.000000000, 0.000000000, - 299.573425293,
          67.182876587, 45.570850372, 51.338077545,
          - 32216.630859375, 32815.777343750, - 20.000000000])) (\<lambda>_. ret PNone)
     else ret PNone)"

definition reset_view :: "'h host \<Rightarrow> pyobj \<Rightarrow> ('h, pyobj) comp" where
  "reset_view h config =
     (if config = PStr ''1'' then
       then_do (call h (Set_view
         [0.547810793, 0.809414983, 0.211547419,
          - 0.178774685, 0.360282600, - 0.915552616,
          - 0.817279518, 0.463730723, 0.342069268,
          0.000000000, 0.000000000, - 257.350799561,
          28.792110443, 50.535285950, 52.779388428,
          202.897338867, 311.804260254, - 20.000000000])) (\<lambda>_. ret PNone)
     else if config = PStr ''2'' then
       then_do (call h (Set_view
         [- 0.739635348, - 0.367862731, - 0.563574135,
          0.143549025, - 0.904357791, 0.401908547,
          - 0.657520115, 0.216365919, 0.721703112,
          0.000000000, 0.000000000, - 299.573425293,
          67.182876587, 45.570850372, 51.338077545,
          - 32216.630859375, 32815.777343750, - 20.000000000])) (\<lambda>_. ret PNone)
     else ret PNone)"

subsection \<open>split\_chains, ray\_settings, hydrophobicity\<close>

definition split_chains :: "'h host \<Rightarrow> ('h, pyobj) comp" where
  "split_chains h =
     then_do (do_all h
       [Select ''MBP'' ''chain B'',
        Rotate ''y'' (- 90) ''(MBP)'',
        Translate [- 90, 0, 20] ''(MBP)'',
        Select ''OSM'' ''chain A'',
        Rotate ''y'' 90 ''(OSM)'',
        Translate [0, 0, 20] ''(OSM)'',
        Center,
        Move ''x'' (- 10)]) (\<lambda>_. ret PNone)"

definition ray_settings :: "'h host \<Rightarrow> ('h, pyobj) comp" where
  "ray_settings h =
     then_do (do_all h
       [Set ''ray_trace_fog'' (PInt 0),
        Set ''ray_shadows'' (PInt 0),
        Unset ''depth_cue'',
        Bg_color ''white'',
        Set ''antialias'' (PInt 2),
        Set ''hash_max'' (PInt 300),
        Set ''ambient'' (PFloat 0.4)]) (\<lambda>_. ret PNone)"

text \<open>
  \<open>hydrophobicity\<close> takes the selection as the string \<^verbatim>\<open>str(selection)\<close> gives.
  \<^verbatim>\<open>print(s)\<close> writes to the console of the host; it is recorded with the calls.
\<close>

definition hydrophobicity :: "'h host \<Rightarrow> string \<Rightarrow> ('h, pyobj) comp" where
  "hydrophobicity h selection =
     (let s = selection in
      then_do (do_all h
       [Print s,
        Set_color ''color_ile3'' [71, 67, 243],
        Set_color ''color_phe3'' [88, 76, 244],
        Set_color ''color_val3'' [103, 86, 245],
        Set_color ''color_leu3'' [116, 95, 246],
        Set_color ''color_trp3'' [128, 105, 247],
        Set_color ''color_met3'' [139, 115, 248],
        Set_color ''color_ala3'' [149, 124, 249],
        Set_color ''color_gly3'' [159, 134, 250],
        Set_color ''color_cys3'' [168, 144, 250],
        Set_color ''color_tyr3'' [177, 153, 251],
        Set_color ''color_pro3'' [186, 163, 252],
        Set_color ''color_thr3'' [194, 173, 252],
        Set_color ''color_ser3'' [202, 183, 253],
        Set_color ''color_his3'' [210, 193, 253],
        Set_color ''color_glu3'' [218, 203, 254],
        Set_color ''color_asn3'' [226, 214, 254],
        Set_color ''color_gln3'' [233, 224, 254],
        Set_color ''color_asp3'' [241, 234, 255],
        Set_color ''color_lys3'' [248, 245, 255],
        Set_color ''color_arg3'' [255, 255, 255],
        Color ''color_ile3'' (''('' @ s @ '' and resn ile)''),
        Color ''color_phe3'' (''('' @ s @ '' and resn phe)''),
        Color ''color_val3'' (''('' @ s @ '' and resn val)''),
        Color ''color_leu3'' (''('' @ s @ '' and resn leu)''),
        Color ''color_trp3'' (''('' @ s @ '' and resn trp)''),
        Color ''color_met3'' (''('' @ s @ '' and resn met)''),
        Color ''color_ala3'' (''('' @ s @ '' and resn ala)''),
        Color ''color_gly3'' (''('' @ s @ '' and resn gly)''),
        Color ''color_cys3'' (''('' @ s @ '' and resn cys)''),
        Color ''color_tyr3'' (''('' @ s @ '' and resn tyr)''),
        Color ''color_pro3'' (''('' @ s @ '' and resn pro)''),
        Color ''color_thr3'' (''('' @ s @ '' and resn thr)''),
        Color ''color_ser3'' (''('' @ s @ '' and resn ser)''),
        Color ''color_his3'' (''('' @ s @ '' and resn his)''),
        Color ''color_glu3'' (''('' @ s @ '' and resn glu)''),
        Color ''color_asn3'' (''('' @ s @ '' and resn asn)''),
        Color ''color_gln3'' (''('' @ s @ '' and resn gln)''),
        Color ''color_asp3'' (''('' @ s @ '' and resn asp)''),
        Color ''color_lys3'' (''('' @ s @ '' and resn lys)''),
        Color ''color_arg3'' (''('' @ s @ '' and resn arg)'')]) (\<lambda>_. ret PNone))"

subsection \<open>Notions the properties are stated with\<close>

text \<open>The view matrices a list of commands passes to \<^verbatim>\<open>cmd.set_view\<close>, in order.\<close>

fun view_matrices :: "cmd list \<Rightarrow> real list list" where
  "view_matrices [] = []"
| "view_matrices (Set_view m # cs) = m # view_matrices cs"
| "view_matrices (_ # cs) = view_matrices cs"

text \<open>The calls of \<open>initial_orientation\<close> before the branch on \<open>config\<close>.\<close>

definition orientation_setup :: "string \<Rightarrow> cmd list" where
  "orientation_setup path =
     [Reinitialize, Load path, Set_name (model_name path) ''OM'', Show ''surface'',
      Set_in ''surface_color'' (PStr ''skyblue'') ''chain A'',
      Set_in ''surface_color'' (PStr ''orange'') ''chain B'']"

text \<open>
  A concrete host for running the commands on examples: it has no state, refuses the
  calls listed in \<open>bad\<close>, answers \<^verbatim>\<open>cmd.get\<close> with \<open>ds\<close> and an iteration with
  \<open>rows\<close>.
\<close>

definition demo_host :: "pyobj \<Rightarrow> row list \<Rightarrow> cmd list \<Rightarrow> unit host" where
  "demo_host ds rows bad =
     \<lparr>cmd_call = (\<lambda>c s. if c \<in> set bad then (Inl (CmdException ''refused''), s)
                          else (Inr (case c of Get x \<Rightarrow> ds | _ \<Rightarrow> PNone), s)),
      cmd_iterate = (\<lambda>sel expr s. (Inr rows, s))\<rparr>"

definition start :: "unit world" where
  "start = \<lparr>host_state = (), issued = [], stored_r = []\<rparr>"

text \<open>The row lists the host handed over in answer to iterations, in order.\<close>

fun yielded :: "event list \<Rightarrow> row list list" where
  "yielded [] = []"
| "yielded ((c, Yielded rows) # t) = rows # yielded t"
| "yielded (ev # t) = yielded t"

text \<open>
  The filter as the specification words it: the rows whose area difference crosses the
  cutoff, in iteration order, keeping only the first row of each resi-model key.
\<close>

definition crosses :: "pyfloat \<Rightarrow> row \<Rightarrow> bool" where
  "crosses c r = (case r of (model, resi, b) \<Rightarrow> py_ge \<bar>b\<bar> c)"

fun first_per_key :: "row list \<Rightarrow> row list" where
  "first_per_key [] = []"
| "first_per_key (x # xs) = x # first_per_key (filter (\<lambda>y. key_of y \<noteq> key_of x) xs)"

definition threshold_filter :: "pyfloat \<Rightarrow> row list \<Rightarrow> row list" where
  "threshold_filter c rows = first_per_key (filter (crosses c) rows)"

text \<open>The call that widens the temporary selection by one residue (line 108).\<close>

definition expand_cmd :: "string \<Rightarrow> row \<Rightarrow> cmd" where
  "expand_cmd selName1 r =
     (case r of (model, resi, diff) \<Rightarrow>
        Select selName1 (selName1 @ '' or ('' @ model @ '' and i. '' @ resi @ '')''))"

text \<open>
  The calls of \<open>interfaceResidues\<close> between reading \<^verbatim>\<open>dot_solvent\<close> and the
  iteration, and those after the loop.
\<close>

definition interface_prologue :: "string \<Rightarrow> string \<Rightarrow> string \<Rightarrow> cmd list" where
  "interface_prologue cmpx cA cB =
     [Set ''dot_solvent'' (PInt 1),
      Create ''tempComplex'' cmpx,
      Disable cmpx,
      Remove (''tempComplex and not (polymer and ('' @ cA @ '' or '' @ cB @ ''))''),
      Get_area ''tempComplex'' 1,
      Alter ''tempComplex'' ''q=b'',
      Extract ''chA'' (''tempComplex and ('' @ cA @ '')''),
      Extract ''chB'' (''tempComplex and ('' @ cB @ '')''),
      Get_area ''chA'' 1,
      Get_area ''chB'' 1,
      Alter ''chA or chB'' ''b=b-q'']"

definition interface_epilogue :: "string \<Rightarrow> string \<Rightarrow> pyobj \<Rightarrow> cmd list" where
  "interface_epilogue cmpx selName oldDS =
     [Select selName (cmpx @ '' in '' @ selName @ ''1''),
      Delete (selName @ ''1''),
      Delete ''chA'',
      Delete ''chB'',
      Delete ''tempComplex'',
      Enable selName,
      Set ''dot_solvent'' oldDS]"

text \<open>Python's \<^verbatim>\<open><=\<close> on two floats.\<close>

fun py_le :: "pyfloat \<Rightarrow> pyfloat \<Rightarrow> bool" where
  "py_le (Fin a) (Fin b) = (a \<le> b)"
| "py_le NaN y = False"
| "py_le x NaN = False"
| "py_le NegInf y = True"
| "py_le x PosInf = True"
| "py_le x y = False"

text \<open>The (model, resi) pair of a row.\<close>

definition residue_of :: "row \<Rightarrow> string \<times> string" where
  "residue_of r = (case r of (model, resi, diff) \<Rightarrow> (model, resi))"

text \<open>\<^verbatim>\<open>float\<close> on a cutoff that is a finite float already.\<close>

definition float_of_real :: "real \<Rightarrow> exn + pyfloat" where
  "float_of_real x = Inr (Fin x)"

text \<open>A triple of the returned array as a Python value.\<close>

definition row_obj :: "row \<Rightarrow> pyobj" where
  "row_obj r = (case r of (model, resi, diff) \<Rightarrow> PTuple [PStr model, PStr resi, PFloat diff])"

text \<open>
  The six commands the script registers with \<^verbatim>\<open>cmd.extend\<close>, with their arguments,
  and the Python value a call of each returns.  A function without a
  \<^verbatim>\<open>return\<close> statement returns \<^verbatim>\<open>None\<close>.
\<close>

datatype 'c operation =
    InterfaceResidues string string string 'c string
  | Initial_orientation string pyobj
  | Reset_view pyobj
  | Split_chains
  | Ray_settings
  | Hydrophobicity string

fun run_op :: "'h host \<Rightarrow> ('c \<Rightarrow> exn + pyfloat) \<Rightarrow> 'c operation \<Rightarrow> ('h, pyobj) comp" where
  "run_op h fl (InterfaceResidues cmpx cA cB cutoff selName) =
     then_do (interfaceResidues h fl cmpx cA cB cutoff selName)
       (\<lambda>rVal. ret (PList (map row_obj rVal)))"
| "run_op h fl (Initial_orientation path config) = initial_orientation h path config"
| "run_op h fl (Reset_view config) = reset_view h config"
| "run_op h fl Split_chains = split_chains h"
| "run_op h fl Ray_settings = ray_settings h"
| "run_op h fl (Hydrophobicity selection) = hydrophobicity h selection"

text \<open>
  A simple textual or numeric result: a string or a number, or a tuple or list of such.
  \<^verbatim>\<open>None\<close> is neither.
\<close>

fun simple_result :: "pyobj \<Rightarrow> bool" where
  "simple_result PNone = False"
| "simple_result (PInt i) = True"
| "simple_result (PFloat x) = True"
| "simple_result (PStr s) = True"
| "simple_result (PTuple vs) = (\<forall>v\<in>set vs. simple_result v)"
| "simple_result (PList vs) = (\<forall>v\<in>set vs. simple_result v)"

text \<open>No event of the list is a refused call.\<close>

definition no_failure :: "event list \<Rightarrow> bool" where
  "no_failure t = (\<forall>ev\<in>set t. \<forall>e. snd ev \<noteq> Failed e)"

text \<open>
  A refused call is the last event and its exception is the result.
\<close>

definition failure_last :: "event list \<Rightarrow> exn + 'a \<Rightarrow> bool" where
  "failure_last t r =
     (no_failure t \<or> (\<exists>pre c e. t = pre @ [(c, Failed e)] \<and> no_failure pre \<and> r = Inl e))"

definition unhandled :: "('h, 'a) comp \<Rightarrow> bool" where
  "unhandled m = (\<forall>w r w'. m w = (r, w') \<longrightarrow>
      (\<exists>t. issued w' = issued w @ t \<and> failure_last t r))"

text \<open>One list of answers continues the other.\<close>

definition comparable :: "'a list \<Rightarrow> 'a list \<Rightarrow> bool" where
  "comparable xs ys = (prefix xs ys \<or> prefix ys xs)"

text \<open>
  Two runs of a computation, against two hosts, that got the same answers as far as both
  went issued the same calls and ended alike.
\<close>

definition determined :: "('h1, 'a) comp \<Rightarrow> ('h2, 'a) comp \<Rightarrow> bool" where
  "determined m1 m2 =
     (\<forall>w1 w2 r1 r2 w1' w2'. m1 w1 = (r1, w1') \<longrightarrow> m2 w2 = (r2, w2') \<longrightarrow>
        comparable (responses (new_events w1 w1')) (responses (new_events w2 w2')) \<longrightarrow>
        commands (new_events w1 w1') = commands (new_events w2 w2')
        \<and> responses (new_events w1 w1') = responses (new_events w2 w2') \<and> r1 = r2)"

text \<open>A second concrete host, with a state: it counts the calls it has answered.\<close>

definition counting_host :: "pyobj \<Rightarrow> row list \<Rightarrow> nat host" where
  "counting_host ds rows =
     \<lparr>cmd_call = (\<lambda>c n. (Inr (case c of Get x \<Rightarrow> ds | _ \<Rightarrow> PNone), Suc n)),
      cmd_iterate = (\<lambda>sel expr n. (Inr rows, Suc n))\<rparr>"

text \<open>
  Bookkeeping over a list of calls, for \<open>interfaceResidues\<close>: the names the calls
  introduce (with create, extract and select) and do not delete afterwards, starting
  from a set of names.
\<close>

fun names_left :: "cmd list \<Rightarrow> string set \<Rightarrow> string set" where
  "names_left [] ns = ns"
| "names_left (Create n src # cs) ns = names_left cs (insert n ns)"
| "names_left (Extract n sel # cs) ns = names_left cs (insert n ns)"
| "names_left (Select n sel # cs) ns = names_left cs (insert n ns)"
| "names_left (Delete n # cs) ns = names_left cs (ns - {n})"
| "names_left (c # cs) ns = names_left cs ns"

text \<open>
  Whether the last enable or disable call on the name \<open>n\<close> was an enable; \<open>v\<close> when
  the calls have none.
\<close>

fun shown :: "string \<Rightarrow> cmd list \<Rightarrow> bool option \<Rightarrow> bool option" where
  "shown n [] v = v"
| "shown n (Enable m # cs) v = shown n cs (if m = n then Some True else v)"
| "shown n (Disable m # cs) v = shown n cs (if m = n then Some False else v)"
| "shown n (c # cs) v = shown n cs v"

text \<open>
  The residue names \<open>hydrophobicity\<close> colours, with the colour each gets, in the order
  of the source; and the calls of the operation written from this table.
\<close>

definition colour_table :: "(string \<times> int list) list" where
  "colour_table =
     [(''ile'', [71, 67, 243]), (''phe'', [88, 76, 244]), (''val'', [103, 86, 245]),
      (''leu'', [116, 95, 246]), (''trp'', [128, 105, 247]), (''met'', [139, 115, 248]),
      (''ala'', [149, 124, 249]), (''gly'', [159, 134, 250]), (''cys'', [168, 144, 250]),
      (''tyr'', [177, 153, 251]), (''pro'', [186, 163, 252]), (''thr'', [194, 173, 252]),
      (''ser'', [202, 183, 253]), (''his'', [210, 193, 253]), (''glu'', [218, 203, 254]),
      (''asn'', [226, 214, 254]), (''gln'', [233, 224, 254]), (''asp'', [241, 234, 255]),
      (''lys'', [248, 245, 255]), (''arg'', [255, 255, 255])]"

definition residue_selection :: "string \<Rightarrow> string \<Rightarrow> string" where
  "residue_selection s x = ''('' @ s @ '' and resn '' @ x @ '')''"

definition hydrophobicity_calls :: "string \<Rightarrow> cmd list" where
  "hydrophobicity_calls s =
     Print s
     # map (\<lambda>(x, rgb). Set_color (''color_'' @ x @ ''3'') rgb) colour_table
     @ map (\<lambda>(x, rgb). Color (''color_'' @ x @ ''3'') (residue_selection s x)) colour_table"

text \<open>
  What a list of calls does to the colours of atoms, given the host's reading of
  selections (\<open>selects sel a\<close>: the selection \<open>sel\<close> holds the atom \<open>a\<close>):
  \<^verbatim>\<open>cmd.color(name, sel)\<close> gives the colour \<open>name\<close> to the atoms of \<open>sel\<close>, and no
  other call of \<open>hydrophobicity\<close> gives an atom a colour.
\<close>

fun colours_after :: "(string \<Rightarrow> 'a \<Rightarrow> bool) \<Rightarrow> cmd list \<Rightarrow> ('a \<Rightarrow> string) \<Rightarrow> 'a \<Rightarrow> string" where
  "colours_after selects [] col = col"
| "colours_after selects (Color name sel # cs) col =
     colours_after selects cs (\<lambda>a. if selects sel a then name else col a)"
| "colours_after selects (c # cs) col = colours_after selects cs col"

text \<open>
  A reading of selections for examples: an atom is a pair of whether it lies in the
  selection \<^verbatim>\<open>all\<close> of the example and its residue name.
\<close>

definition demo_selects :: "string \<Rightarrow> bool \<times> string \<Rightarrow> bool" where
  "demo_selects sel a =
     (fst a \<and> (sel = ''all'' \<or> sel = residue_selection ''all'' (snd a)))"

text \<open>
  A reading of selection strings in which \<^verbatim>\<open>and\<close> binds tighter than \<^verbatim>\<open>or\<close>, as far
  as the examples need it.  A string, one pair of outer parentheses removed, is a list
  of alternatives separated by \<^verbatim>\<open> or \<close>, each a list of terms separated by
  \<^verbatim>\<open> and \<close>; a term is \<^verbatim>\<open>all\<close>, \<^verbatim>\<open>chain X\<close> or \<^verbatim>\<open>resn y\<close>.  An atom is the
  pair of its chain and its residue name.  \<open>split_on\<close> cuts a string at every
  occurrence of the separator; its counter is the number of characters of a separator
  still to be skipped, its third argument the piece read so far, reversed.
\<close>

fun split_on :: "string \<Rightarrow> nat \<Rightarrow> string \<Rightarrow> string \<Rightarrow> string list" where
  "split_on sep k piece [] = [rev piece]"
| "split_on sep (Suc k) piece (x # xs) = split_on sep k piece xs"
| "split_on sep 0 piece (x # xs) =
     (if prefix sep (x # xs) then rev piece # split_on sep (length sep - 1) [] xs
      else split_on sep 0 (x # piece) xs)"

definition strip_parens :: "string \<Rightarrow> string" where
  "strip_parens s =
     (if s \<noteq> [] \<and> hd s = CHR ''('' \<and> last s = CHR '')'' then butlast (tl s) else s)"

definition term_holds :: "string \<Rightarrow> string \<times> string \<Rightarrow> bool" where
  "term_holds t a = (t = ''all'' \<or> t = ''chain '' @ fst a \<or> t = ''resn '' @ snd a)"

definition and_over_or :: "string \<Rightarrow> string \<times> string \<Rightarrow> bool" where
  "and_over_or sel a =
     list_ex (\<lambda>alt. list_all (\<lambda>t. term_holds t a) (split_on '' and '' 0 [] alt))
       (split_on '' or '' 0 [] (strip_parens sel))"

section \<open>Properties\<close>

subsection \<open>Records of calls\<close>

lemma new_events_append: "issued w' = issued w @ t \<Longrightarrow> new_events w w' = t"
  by (simp add: new_events_def)

lemma new_events_same: "new_events w w = []"
  by (simp add: new_events_def)

lemma call_trace:
  "call h c w = (r, w') \<Longrightarrow> \<exists>x. issued w' = issued w @ [(c, x)]"
  by (auto simp: call_def split: prod.splits sum.splits)

lemma do_all_trace:
  "do_all h cs w = (r, w') \<Longrightarrow>
     \<exists>t. issued w' = issued w @ t \<and> prefix (commands t) cs \<and> (\<forall>u. r = Inr u \<longrightarrow> commands t = cs)"
proof (induction cs arbitrary: w)
  case Nil
  then show ?case by (simp add: ret_def commands_def)
next
  case (Cons c cs)
  obtain r1 w1 where c1: "call h c w = (r1, w1)" by (cases "call h c w")
  then obtain x where t1: "issued w1 = issued w @ [(c, x)]" using call_trace by blast
  show ?case
  proof (cases r1)
    case (Inl e)
    with Cons.prems c1 have "r = Inl e" "w' = w1" by (simp_all add: then_do_def)
    with t1 show ?thesis by (auto simp: commands_def)
  next
    case (Inr v)
    with Cons.prems c1 have "do_all h cs w1 = (r, w')" by (simp add: then_do_def)
    from Cons.IH[OF this] obtain t where
      "issued w' = issued w1 @ t" "prefix (commands t) cs" "\<forall>u. r = Inr u \<longrightarrow> commands t = cs"
      by blast
    with t1 show ?thesis
      by (intro exI[of _ "(c, x) # t"]) (simp add: commands_def)
  qed
qed

lemma call_result:
  "call h c w = (r, w') \<Longrightarrow> new_events w w' = [(c, case r of Inl e \<Rightarrow> Failed e | Inr v \<Rightarrow> Returned v)]"
  by (auto simp: call_def new_events_def split: prod.splits sum.splits)

lemma view_matrices_append:
  "view_matrices (cs @ ds) = view_matrices cs @ view_matrices ds"
  by (induction cs rule: view_matrices.induct) simp_all

lemma view_matrices_prefix_setup:
  "prefix cs (orientation_setup path) \<Longrightarrow> view_matrices cs = []"
  by (auto simp: orientation_setup_def prefix_Cons split: list.splits elim!: prefixE
        dest!: arg_cong[where f = view_matrices])

lemma model_name_ex: "model_name ''models/dock1.pdb'' = ''dock1''"
  by (simp add: model_name_def numeral_3_eq_3)

subsection \<open>The two view matrices\<close>

text \<open>
  Claim C5.  For \<open>config\<close> the string '1' or '2', \<open>reset_view\<close> passes to
  \<^verbatim>\<open>cmd.set_view\<close> the same matrix of 18 numbers that a completed
  \<open>initial_orientation\<close> passed for that \<open>config\<close>, and issues nothing else.
\<close>

theorem reset_view_same_matrix:
  assumes "config = PStr ''1'' \<or> config = PStr ''2''"
    and "initial_orientation h path config w = (Inr v, w')"
    and "reset_view h' config u = (r, u')"
  shows "view_matrices (commands (new_events u u')) = view_matrices (commands (new_events w w'))
       \<and> (\<exists>m. commands (new_events u u') = [Set_view m] \<and> length m = 18)"
proof -
  obtain r1 w1 where d: "do_all h (orientation_setup path) w = (r1, w1)"
    by (cases "do_all h (orientation_setup path) w")
  from do_all_trace[OF d] obtain t where
    t: "issued w1 = issued w @ t" "prefix (commands t) (orientation_setup path)"
    by blast
  have vt: "view_matrices (commands t) = []"
    using t(2) by (rule view_matrices_prefix_setup)
  from assms(1) show ?thesis
  proof
    assume c: "config = PStr ''1''"
    obtain r2 w2 where s: "call h (Set_view
         [0.547810793, 0.809414983, 0.211547419,
          - 0.178774685, 0.360282600, - 0.915552616,
          - 0.817279518, 0.463730723, 0.342069268,
          0.000000000, 0.000000000, - 257.350799561,
          28.792110443, 50.535285950, 52.779388428,
          202.897338867, 311.804260254, - 20.000000000]) w1 = (r2, w2)"
      (is "call h (Set_view ?m) w1 = _")
      by (cases "call h (Set_view ?m) w1")
    from call_trace[OF s] obtain x where x: "issued w2 = issued w1 @ [(Set_view ?m, x)]" by blast
    have "w' = w2"
      using assms(2) c d s
      by (auto simp: initial_orientation_def orientation_setup_def then_do_def ret_def
            split: sum.splits)
    with x t(1) have n1: "new_events w w' = t @ [(Set_view ?m, x)]"
      by (simp add: new_events_append)
    obtain r3 u3 where s': "call h' (Set_view ?m) u = (r3, u3)"
      by (cases "call h' (Set_view ?m) u")
    from call_trace[OF s'] obtain y where y: "issued u3 = issued u @ [(Set_view ?m, y)]" by blast
    have "u' = u3"
      using assms(3) c s' by (auto simp: reset_view_def then_do_def ret_def split: sum.splits)
    with y have n2: "new_events u u' = [(Set_view ?m, y)]"
      by (simp add: new_events_append)
    show ?thesis
      using n1 n2 vt by (simp add: commands_def view_matrices_append)
  next
    assume c: "config = PStr ''2''"
    obtain r2 w2 where s: "call h (Set_view
         [- 0.739635348, - 0.367862731, - 0.563574135,
          0.143549025, - 0.904357791, 0.401908547,
          - 0.657520115, 0.216365919, 0.721703112,
          0.000000000, 0.000000000, - 299.573425293,
          67.182876587, 45.570850372, 51.338077545,
          - 32216.630859375, 32815.777343750, - 20.000000000]) w1 = (r2, w2)"
      (is "call h (Set_view ?m) w1 = _")
      by (cases "call h (Set_view ?m) w1")
    from call_trace[OF s] obtain x where x: "issued w2 = issued w1 @ [(Set_view ?m, x)]" by blast
    have "w' = w2"
      using assms(2) c d s
      by (auto simp: initial_orientation_def orientation_setup_def then_do_def ret_def
            split: sum.splits)
    with x t(1) have n1: "new_events w w' = t @ [(Set_view ?m, x)]"
      by (simp add: new_events_append)
    obtain r3 u3 where s': "call h' (Set_view ?m) u = (r3, u3)"
      by (cases "call h' (Set_view ?m) u")
    from call_trace[OF s'] obtain y where y: "issued u3 = issued u @ [(Set_view ?m, y)]" by blast
    have "u' = u3"
      using assms(3) c s' by (auto simp: reset_view_def then_do_def ret_def split: sum.splits)
    with y have n2: "new_events u u' = [(Set_view ?m, y)]"
      by (simp add: new_events_append)
    show ?thesis
      using n1 n2 vt by (simp add: commands_def view_matrices_append)
  qed
qed

theorem reset_view_same_matrix_witness:
  "view_matrices (commands (new_events start (snd (reset_view (demo_host PNone [] []) (PStr ''2'') start))))
   = view_matrices (commands (new_events start
        (snd (initial_orientation (demo_host PNone [] []) ''models/dock2.pdb'' (PStr ''2'') start))))
   \<and> fst (initial_orientation (demo_host PNone [] []) ''models/dock2.pdb'' (PStr ''2'') start) = Inr PNone"
proof -
  obtain w' where run:
    "initial_orientation (demo_host PNone [] []) ''models/dock2.pdb'' (PStr ''2'') start = (Inr PNone, w')"
    by (simp add: initial_orientation_def then_do_def call_def ret_def demo_host_def start_def)
  obtain r u' where run': "reset_view (demo_host PNone [] []) (PStr ''2'') start = (r, u')"
    by (cases "reset_view (demo_host PNone [] []) (PStr ''2'') start")
  show ?thesis
    using reset_view_same_matrix[OF _ run run'] by (simp add: run run')
qed

subsection \<open>A config that is neither '1' nor '2'\<close>

text \<open>
  Claim C9.  For a \<open>config\<close> that is neither the string '1' nor the string '2' (the
  integer 1, say), \<open>reset_view\<close> returns at once and issues no call, and
  \<open>initial_orientation\<close> issues its six calls (reinitialize, load, set\_name, show and
  the two surface colours), or a prefix of them when the host refuses one, and never a
  \<^verbatim>\<open>set_view\<close>.
\<close>

theorem unknown_config_sets_no_view:
  assumes "config \<noteq> PStr ''1''" and "config \<noteq> PStr ''2''"
    and "initial_orientation h path config w = (r, w')"
  shows "reset_view h config w = (Inr PNone, w)
       \<and> prefix (commands (new_events w w')) (orientation_setup path)
       \<and> view_matrices (commands (new_events w w')) = []
       \<and> ((\<exists>v. r = Inr v) \<longrightarrow> r = Inr PNone \<and> commands (new_events w w') = orientation_setup path)"
proof -
  obtain r1 w1 where d: "do_all h (orientation_setup path) w = (r1, w1)"
    by (cases "do_all h (orientation_setup path) w")
  from do_all_trace[OF d] obtain t where
    t: "issued w1 = issued w @ t" "prefix (commands t) (orientation_setup path)"
       "\<forall>u. r1 = Inr u \<longrightarrow> commands t = orientation_setup path"
    by blast
  have w1: "w' = w1" and r: "r = (case r1 of Inl e \<Rightarrow> Inl e | Inr u \<Rightarrow> Inr PNone)"
    using assms d
    by (auto simp: initial_orientation_def orientation_setup_def then_do_def ret_def
          split: sum.splits)
  have ne: "new_events w w' = t" using t(1) w1 by (simp add: new_events_append)
  have "reset_view h config w = (Inr PNone, w)"
    using assms(1,2) by (simp add: reset_view_def ret_def)
  moreover have "view_matrices (commands t) = []"
    using t(2) by (rule view_matrices_prefix_setup)
  ultimately show ?thesis
    using t r ne by (auto split: sum.splits)
qed

theorem unknown_config_sets_no_view_witness:
  "reset_view (demo_host PNone [] []) (PInt 1) start = (Inr PNone, start)
   \<and> commands (new_events start
        (snd (initial_orientation (demo_host PNone [] []) ''models/dock1.pdb'' (PInt 1) start)))
     = [Reinitialize, Load ''models/dock1.pdb'', Set_name ''dock1'' ''OM'', Show ''surface'',
        Set_in ''surface_color'' (PStr ''skyblue'') ''chain A'',
        Set_in ''surface_color'' (PStr ''orange'') ''chain B'']"
proof -
  have run: "initial_orientation (demo_host PNone [] []) ''models/dock1.pdb'' (PInt 1) start
      = (Inr PNone, snd (initial_orientation (demo_host PNone [] []) ''models/dock1.pdb'' (PInt 1) start))"
    by (simp add: initial_orientation_def then_do_def call_def ret_def demo_host_def start_def)
  show ?thesis
    using unknown_config_sets_no_view[OF _ _ run]
    by (simp add: orientation_setup_def model_name_ex)
qed

subsection \<open>Runs of interfaceResidues that complete\<close>

lemma then_do_Inr:
  "then_do m f w = (Inr y, w') \<longleftrightarrow> (\<exists>x w1. m w = (Inr x, w1) \<and> f x w1 = (Inr y, w'))"
  by (auto simp: then_do_def split: prod.splits sum.splits)

lemma call_Inr: "call h c w = (Inr v, w') \<Longrightarrow> issued w' = issued w @ [(c, Returned v)]"
  by (auto simp: call_def split: prod.splits sum.splits)

lemma iterate_Inr:
  "iterate h sel expr w = (Inr rows, w') \<Longrightarrow>
     issued w' = issued w @ [(Iterate sel expr, Yielded rows)]"
  by (auto simp: iterate_def split: prod.splits sum.splits)

lemma yielded_append: "yielded (t @ u) = yielded t @ yielded u"
  by (induction t rule: yielded.induct) simp_all

lemma do_all_Inr:
  "do_all h cs w = (Inr u, w') \<Longrightarrow>
     \<exists>t. issued w' = issued w @ t \<and> commands t = cs \<and> yielded t = []"
proof (induction cs arbitrary: w)
  case Nil
  then show ?case by (simp add: ret_def commands_def)
next
  case (Cons c cs)
  from Cons.prems obtain v w1 where c1: "call h c w = (Inr v, w1)"
    and rest: "do_all h cs w1 = (Inr u, w')"
    by (auto simp: then_do_Inr)
  from Cons.IH[OF rest] obtain t where
    "issued w' = issued w1 @ t" "commands t = cs" "yielded t = []" by blast
  with call_Inr[OF c1] show ?case
    by (intro exI[of _ "(c, Returned v) # t"]) (simp add: commands_def)
qed

lemma residue_loop_Inr:
  "residue_loop h fl cutoff sel1 rows seen rVal w = (Inr res, w') \<Longrightarrow> fl cutoff = Inr c \<Longrightarrow>
     \<exists>t new. res = rVal @ new
       \<and> new = first_per_key (filter (\<lambda>r. crosses c r \<and> key_of r \<notin> set seen) rows)
       \<and> issued w' = issued w @ t \<and> commands t = map (expand_cmd sel1) new \<and> yielded t = []"
proof (induction rows arbitrary: seen rVal w)
  case Nil
  then show ?case by (simp add: ret_def commands_def)
next
  case (Cons row rest)
  obtain model resi diff where row: "row = (model, resi, diff)" by (cases row)
  let ?key = "resi @ ''-'' @ model"
  have key: "key_of row = ?key" by (simp add: row key_of_def)
  have cr: "crosses c row = py_ge \<bar>diff\<bar> c" by (simp add: row crosses_def)
  consider (skip) "\<not> py_ge \<bar>diff\<bar> c \<or> ?key \<in> set seen"
    | (keep) "py_ge \<bar>diff\<bar> c" "?key \<notin> set seen" by blast
  then show ?case
  proof cases
    case skip
    with Cons.prems have "residue_loop h fl cutoff sel1 rest seen rVal w = (Inr res, w')"
      by (auto simp: row Let_def split: if_splits)
    from Cons.IH[OF this Cons.prems(2)] skip show ?thesis
      by (auto simp: key cr)
  next
    case keep
    with Cons.prems obtain v w1 where
      c1: "call h (expand_cmd sel1 row) w = (Inr v, w1)" and
      rest: "residue_loop h fl cutoff sel1 rest (seen @ [?key]) (rVal @ [row]) w1 = (Inr res, w')"
      by (auto simp: row Let_def then_do_Inr expand_cmd_def)
    from Cons.IH[OF rest Cons.prems(2)] obtain t new where
      n: "res = (rVal @ [row]) @ new"
         "new = first_per_key (filter (\<lambda>r. crosses c r \<and> key_of r \<notin> set (seen @ [?key])) rest)"
         "issued w' = issued w1 @ t" "commands t = map (expand_cmd sel1) new" "yielded t = []"
      by blast
    have f: "filter (\<lambda>r. crosses c r \<and> key_of r \<notin> set (seen @ [?key])) rest
           = filter (\<lambda>y. key_of y \<noteq> key_of row)
               (filter (\<lambda>r. crosses c r \<and> key_of r \<notin> set seen) rest)"
      by (auto simp: key intro: filter_cong)
    let ?Q = "\<lambda>r. crosses c r \<and> key_of r \<notin> set seen"
    have "filter ?Q (row # rest) = row # filter ?Q rest"
      using keep by (simp add: key cr)
    then have "first_per_key (filter ?Q (row # rest))
        = row # first_per_key (filter (\<lambda>y. key_of y \<noteq> key_of row) (filter ?Q rest))"
      by (simp only: first_per_key.simps)
    also have "\<dots> = row # new"
      by (simp only: f[symmetric] n(2))
    finally have g: "row # new = first_per_key (filter ?Q (row # rest))" by (rule sym)
    have a: "res = rVal @ row # new" using n(1) by simp
    have b: "issued w' = issued w @ (expand_cmd sel1 row, Returned v) # t"
      using n(3) call_Inr[OF c1] by simp
    have d: "commands ((expand_cmd sel1 row, Returned v) # t) = map (expand_cmd sel1) (row # new)"
      using n(4) by (simp add: commands_def)
    have e: "yielded ((expand_cmd sel1 row, Returned v) # t) = []"
      using n(5) by simp
    from a g b d e show ?thesis by blast
  qed
qed

lemma residue_loop_no_float:
  "residue_loop h fl cutoff sel1 rows seen rVal w = (Inr res, w') \<Longrightarrow> fl cutoff = Inl e \<Longrightarrow>
     rows = [] \<and> res = rVal \<and> w' = w"
  by (cases rows) (auto simp: ret_def raise_def Let_def)

lemma call_stored: "call h c w = (r, w') \<Longrightarrow> stored_r w' = stored_r w"
  by (auto simp: call_def split: prod.splits sum.splits)

lemma iterate_stored:
  "iterate h sel expr w = (Inr rows, w') \<Longrightarrow> stored_r w' = stored_r w @ rows"
  by (auto simp: iterate_def split: prod.splits sum.splits)

lemma do_all_stored: "do_all h cs w = (r, w') \<Longrightarrow> stored_r w' = stored_r w"
proof (induction cs arbitrary: w)
  case Nil
  then show ?case by (simp add: ret_def)
next
  case (Cons c cs)
  obtain r1 w1 where c1: "call h c w = (r1, w1)" by (cases "call h c w")
  from call_stored[OF c1] have s1: "stored_r w1 = stored_r w" .
  show ?case
  proof (cases r1)
    case (Inl e)
    with Cons.prems c1 have "w' = w1" by (simp add: then_do_def)
    with s1 show ?thesis by simp
  next
    case (Inr v)
    with Cons.prems c1 have "do_all h cs w1 = (r, w')" by (simp add: then_do_def)
    from Cons.IH[OF this] s1 show ?thesis by simp
  qed
qed

lemma residue_loop_stored:
  "residue_loop h fl cutoff sel1 rows seen rVal w = (r, w') \<Longrightarrow> stored_r w' = stored_r w"
proof (induction rows arbitrary: seen rVal w)
  case Nil
  then show ?case by (simp add: ret_def)
next
  case (Cons row rest)
  obtain model resi diff where row: "row = (model, resi, diff)" by (cases row)
  show ?case
  proof (cases "fl cutoff")
    case (Inl e)
    with Cons.prems show ?thesis by (simp add: row raise_def Let_def)
  next
    case (Inr c)
    let ?key = "resi @ ''-'' @ model"
    consider (skip) "\<not> py_ge \<bar>diff\<bar> c \<or> ?key \<in> set seen"
      | (keep) "py_ge \<bar>diff\<bar> c" "?key \<notin> set seen" by blast
    then show ?thesis
    proof cases
      case skip
      with Cons.prems Inr have "residue_loop h fl cutoff sel1 rest seen rVal w = (r, w')"
        by (auto simp: row Let_def split: if_splits)
      then show ?thesis by (rule Cons.IH)
    next
      case keep
      obtain r1 w1 where c1: "call h (expand_cmd sel1 row) w = (r1, w1)"
        by (cases "call h (expand_cmd sel1 row) w")
      from call_stored[OF c1] have s1: "stored_r w1 = stored_r w" .
      show ?thesis
      proof (cases r1)
        case (Inl e)
        with Cons.prems Inr keep c1 have "w' = w1"
          by (simp add: row Let_def then_do_def expand_cmd_def)
        with s1 show ?thesis by simp
      next
        case (Inr v)
        with Cons.prems \<open>fl cutoff = Inr c\<close> keep c1
        have "residue_loop h fl cutoff sel1 rest (seen @ [?key]) (rVal @ [row]) w1 = (r, w')"
          by (simp add: row Let_def then_do_def expand_cmd_def)
        from Cons.IH[OF this] s1 show ?thesis by simp
      qed
    qed
  qed
qed

lemma interfaceResidues_Inr:
  assumes "interfaceResidues h fl cmpx cA cB cutoff selName w = (Inr rVal, w')"
  shows "\<exists>oldDS rows t0 t1 t2 t3.
     new_events w w' =
       (Get ''dot_solvent'', Returned oldDS) # t0
       @ (Iterate ''chA or chB'' ''stored.r.append((model,resi,b))'', Yielded rows) # t1 @ t2 @ t3
     \<and> commands t0 = interface_prologue cmpx cA cB \<and> yielded t0 = []
     \<and> commands t1 = [Enable cmpx, Select (selName @ ''1'') ''none''] \<and> yielded t1 = []
     \<and> commands t2 = map (expand_cmd (selName @ ''1'')) rVal \<and> yielded t2 = []
     \<and> commands t3 = interface_epilogue cmpx selName oldDS \<and> yielded t3 = []
     \<and> (\<forall>c. fl cutoff = Inr c \<longrightarrow> rVal = threshold_filter c rows)
     \<and> (\<forall>e. fl cutoff = Inl e \<longrightarrow> rows = [] \<and> rVal = [])
     \<and> stored_r w' = rows"
proof -
  from assms obtain oldDS w1 v2 w2 u3 w3 rows w4 u5 w5 w6 u7 where
    s1: "call h (Get ''dot_solvent'') w = (Inr oldDS, w1)" and
    s2: "call h (Set ''dot_solvent'' (PInt 1)) w1 = (Inr v2, w2)" and
    s3: "do_all h (tl (interface_prologue cmpx cA cB)) w2 = (Inr u3, w3)" and
    s4: "iterate h ''chA or chB'' ''stored.r.append((model,resi,b))'' (w3\<lparr>stored_r := []\<rparr>)
           = (Inr rows, w4)" and
    s5: "do_all h [Enable cmpx, Select (selName @ ''1'') ''none''] w4 = (Inr u5, w5)" and
    s6: "residue_loop h fl cutoff (selName @ ''1'') rows [] [] w5 = (Inr rVal, w6)" and
    s7: "do_all h (interface_epilogue cmpx selName oldDS) w6 = (Inr u7, w')"
    unfolding interfaceResidues_def Let_def then_do_Inr ret_def assign_stored_r_def
      interface_prologue_def interface_epilogue_def
    by (simp only: list.sel append.simps append_assoc prod.inject sum.inject) blast
  from do_all_Inr[OF s3] obtain t0 where
    t0: "issued w3 = issued w2 @ t0" "commands t0 = tl (interface_prologue cmpx cA cB)"
        "yielded t0 = []" by blast
  from do_all_Inr[OF s5] obtain t1 where
    t1: "issued w5 = issued w4 @ t1"
        "commands t1 = [Enable cmpx, Select (selName @ ''1'') ''none'']" "yielded t1 = []"
    by blast
  from do_all_Inr[OF s7] obtain t3 where
    t3: "issued w' = issued w6 @ t3" "commands t3 = interface_epilogue cmpx selName oldDS"
        "yielded t3 = []" by blast
  have "\<exists>t2. issued w6 = issued w5 @ t2
          \<and> commands t2 = map (expand_cmd (selName @ ''1'')) rVal \<and> yielded t2 = []
          \<and> (\<forall>c. fl cutoff = Inr c \<longrightarrow> rVal = threshold_filter c rows)
          \<and> (\<forall>e. fl cutoff = Inl e \<longrightarrow> rows = [] \<and> rVal = [])"
  proof (cases "fl cutoff")
    case (Inl e)
    from residue_loop_no_float[OF s6 Inl] show ?thesis
      by (intro exI[of _ "[]"]) (simp add: Inl commands_def)
  next
    case (Inr c)
    from residue_loop_Inr[OF s6 Inr] show ?thesis
      by (auto simp: Inr threshold_filter_def)
  qed
  then obtain t2 where
    t2: "issued w6 = issued w5 @ t2" "commands t2 = map (expand_cmd (selName @ ''1'')) rVal"
        "yielded t2 = []" "\<forall>c. fl cutoff = Inr c \<longrightarrow> rVal = threshold_filter c rows"
        "\<forall>e. fl cutoff = Inl e \<longrightarrow> rows = [] \<and> rVal = []"
    by blast
  let ?t0 = "(Set ''dot_solvent'' (PInt 1), Returned v2) # t0"
  have "issued w' = issued w @
       ((Get ''dot_solvent'', Returned oldDS) # ?t0
       @ (Iterate ''chA or chB'' ''stored.r.append((model,resi,b))'', Yielded rows) # t1 @ t2 @ t3)"
    using call_Inr[OF s1] call_Inr[OF s2] t0(1) iterate_Inr[OF s4] t1(1) t2(1) t3(1) by simp
  then have n: "new_events w w' = (Get ''dot_solvent'', Returned oldDS) # ?t0
       @ (Iterate ''chA or chB'' ''stored.r.append((model,resi,b))'', Yielded rows) # t1 @ t2 @ t3"
    by (rule new_events_append)
  have c0: "commands ?t0 = interface_prologue cmpx cA cB" "yielded ?t0 = []"
    using t0(2,3) by (simp_all add: commands_def interface_prologue_def)
  have "stored_r w' = rows"
    using iterate_stored[OF s4] do_all_stored[OF s5] residue_loop_stored[OF s6]
      do_all_stored[OF s7] by simp
  with n c0 t1(2,3) t2(2-) t3(2,3) show ?thesis by blast
qed

subsection \<open>The filter as the specification words it\<close>

lemma first_per_key_subset: "set (first_per_key xs) \<subseteq> set xs"
  by (induction xs rule: first_per_key.induct) auto

lemma first_per_key_keys: "key_of ` set (first_per_key xs) = key_of ` set xs"
  by (induction xs rule: first_per_key.induct) auto

lemma first_per_key_distinct: "distinct (map key_of (first_per_key xs))"
proof (induction xs rule: first_per_key.induct)
  case 1
  then show ?case by simp
next
  case (2 x xs)
  have "key_of x \<notin> key_of ` set (first_per_key (filter (\<lambda>y. key_of y \<noteq> key_of x) xs))"
    by (auto simp: first_per_key_keys)
  with "2" show ?case by simp
qed

lemma find_filter: "find P (filter Q xs) = find (\<lambda>x. Q x \<and> P x) xs"
  by (induction xs) auto

lemma first_per_key_find:
  "y \<in> set (first_per_key xs) \<Longrightarrow> find (\<lambda>x. key_of x = key_of y) xs = Some y"
proof (induction xs rule: first_per_key.induct)
  case 1
  then show ?case by simp
next
  case (2 x xs)
  show ?case
  proof (cases "y = x")
    case True
    then show ?thesis by simp
  next
    case False
    with "2.prems" have in_rest: "y \<in> set (first_per_key (filter (\<lambda>z. key_of z \<noteq> key_of x) xs))"
      by simp
    with first_per_key_subset have "y \<in> set (filter (\<lambda>z. key_of z \<noteq> key_of x) xs)" by blast
    then have ne: "key_of y \<noteq> key_of x" by simp
    from "2.IH"[OF in_rest]
    have "find (\<lambda>z. key_of z \<noteq> key_of x \<and> key_of z = key_of y) xs = Some y"
      by (simp add: find_filter)
    moreover have "(\<lambda>z. key_of z \<noteq> key_of x \<and> key_of z = key_of y) = (\<lambda>z. key_of z = key_of y)"
      using ne by auto
    ultimately show ?thesis using ne by simp
  qed
qed

lemma key_of_residue: "key_of r = snd (residue_of r) @ ''-'' @ fst (residue_of r)"
  by (cases r) (simp add: key_of_def residue_of_def)

lemma distinct_residues: "distinct (map key_of rs) \<Longrightarrow> distinct (map residue_of rs)"
proof -
  assume d: "distinct (map key_of rs)"
  have "map key_of rs = map (\<lambda>p. snd p @ ''-'' @ fst p) (map residue_of rs)"
    by (simp add: key_of_residue)
  with d show ?thesis by (metis distinct_map)
qed

text \<open>
  The rows of the iteration come from the two extracted chains, so their model is
  \<^verbatim>\<open>chA\<close> or \<^verbatim>\<open>chB\<close>; among such rows the key tells the (model, resi) pairs apart.
\<close>

lemma key_of_chains:
  assumes "fst x \<in> {''chA'', ''chB''}" and "fst y \<in> {''chA'', ''chB''}"
    and "key_of x = key_of y"
  shows "residue_of x = residue_of y"
proof -
  obtain m r d where x: "x = (m, r, d)" by (cases x)
  obtain m' r' d' where y: "y = (m', r', d')" by (cases y)
  from assms(1,2) have len: "length (''-'' @ m) = length (''-'' @ m')"
    by (auto simp: x y)
  from assms(3) have "r @ (''-'' @ m) = r' @ (''-'' @ m')"
    by (simp add: x y key_of_def)
  with len have "r = r' \<and> ''-'' @ m = ''-'' @ m'"
    using append_eq_append_conv[of r r' "''-'' @ m" "''-'' @ m'"] by blast
  then show ?thesis by (simp add: x y residue_of_def)
qed

lemma py_ge_antitone: "py_le c1 c2 \<Longrightarrow> py_ge x c2 \<Longrightarrow> py_ge x c1"
  by (cases c1; cases c2) auto

lemma threshold_filter_keys:
  "key_of ` set (threshold_filter c rows) = key_of ` {r \<in> set rows. crosses c r}"
  by (simp add: threshold_filter_def first_per_key_keys)

lemma interfaceResidues_rows:
  assumes "interfaceResidues h fl cmpx cA cB cutoff selName w = (Inr rVal, w')"
  shows "\<exists>rows. yielded (new_events w w') = [rows]
           \<and> (\<forall>c. fl cutoff = Inr c \<longrightarrow> rVal = threshold_filter c rows)"
proof -
  from interfaceResidues_Inr[OF assms] obtain oldDS rows t0 t1 t2 t3 where
    n: "new_events w w' =
       (Get ''dot_solvent'', Returned oldDS) # t0
       @ (Iterate ''chA or chB'' ''stored.r.append((model,resi,b))'', Yielded rows) # t1 @ t2 @ t3"
    and y: "yielded t0 = []" "yielded t1 = []" "yielded t2 = []" "yielded t3 = []"
    and r: "\<forall>c. fl cutoff = Inr c \<longrightarrow> rVal = threshold_filter c rows"
    by blast
  have "yielded (new_events w w') = [rows]"
    using y by (simp add: n yielded_append)
  with r show ?thesis by blast
qed

subsection \<open>The threshold filter of interfaceResidues\<close>

text \<open>
  Claim C1.  When \<open>interfaceResidues\<close> returns, the host has answered exactly one
  iteration, the one over the two extracted chains, with some rows, and the returned
  list is the threshold filter of these rows: the rows with
  \<^verbatim>\<open>abs(b) >= float(cutoff)\<close>, in iteration order, the first row only of each
  resi-model key.  (If \<^verbatim>\<open>float\<close> rejects the cutoff the function can return only
  when there was no row to test.)
\<close>

theorem interfaceResidues_threshold_filter:
  assumes "interfaceResidues h fl cmpx cA cB cutoff selName w = (Inr rVal, w')"
  shows "\<exists>rows. (Iterate ''chA or chB'' ''stored.r.append((model,resi,b))'', Yielded rows)
                  \<in> set (new_events w w')
           \<and> yielded (new_events w w') = [rows]
           \<and> (\<forall>c. fl cutoff = Inr c \<longrightarrow> rVal = threshold_filter c rows)
           \<and> (\<forall>e. fl cutoff = Inl e \<longrightarrow> rows = [] \<and> rVal = [])"
proof -
  from interfaceResidues_Inr[OF assms] obtain oldDS rows t0 t1 t2 t3 where
    n: "new_events w w' =
       (Get ''dot_solvent'', Returned oldDS) # t0
       @ (Iterate ''chA or chB'' ''stored.r.append((model,resi,b))'', Yielded rows) # t1 @ t2 @ t3"
    and y: "yielded t0 = []" "yielded t1 = []" "yielded t2 = []" "yielded t3 = []"
    and r: "\<forall>c. fl cutoff = Inr c \<longrightarrow> rVal = threshold_filter c rows"
           "\<forall>e. fl cutoff = Inl e \<longrightarrow> rows = [] \<and> rVal = []"
    by blast
  have "yielded (new_events w w') = [rows]"
    using y by (simp add: n yielded_append)
  moreover have "(Iterate ''chA or chB'' ''stored.r.append((model,resi,b))'', Yielded rows)
                  \<in> set (new_events w w')"
    by (simp add: n)
  ultimately show ?thesis using r by blast
qed

lemmas run_simps = interfaceResidues_def Let_def then_do_def call_def iterate_def ret_def
  assign_stored_r_def
  demo_host_def start_def float_of_real_def new_events_def

theorem interfaceResidues_threshold_filter_witness:
  "fst (interfaceResidues
          (demo_host (PInt 0)
             [(''chA'', ''5'', 1/2), (''chA'', ''5'', - 2), (''chB'', ''7'', 3/2), (''chB'', ''8'', 1)] [])
          float_of_real ''cmpx'' ''c. A'' ''c. B'' (3/2) ''interface'' start)
     = Inr [(''chA'', ''5'', - 2), (''chB'', ''7'', 3/2)]
   \<and> threshold_filter (Fin (3/2))
        [(''chA'', ''5'', 1/2), (''chA'', ''5'', - 2), (''chB'', ''7'', 3/2), (''chB'', ''8'', 1)]
     = [(''chA'', ''5'', - 2), (''chB'', ''7'', 3/2)]"
proof -
  let ?rows = "[(''chA'', ''5'', 1/2), (''chA'', ''5'', - 2), (''chB'', ''7'', 3/2), (''chB'', ''8'', 1 :: real)]"
  obtain W where run: "interfaceResidues (demo_host (PInt 0) ?rows []) float_of_real
        ''cmpx'' ''c. A'' ''c. B'' (3/2) ''interface'' start
        = (Inr [(''chA'', ''5'', - 2), (''chB'', ''7'', 3/2)], W)"
    and y: "yielded (new_events start W) = [?rows]"
    by (simp add: run_simps)
  from interfaceResidues_threshold_filter[OF run] y
  have "[(''chA'', ''5'', - 2), (''chB'', ''7'', 3/2)] = threshold_filter (Fin (3/2)) ?rows"
    by (auto simp: float_of_real_def)
  then show ?thesis by (simp add: run)
qed

text \<open>
  Claim C2.  A residue, which the code identifies by its key resi-model, is reported as
  soon as one of its atoms has \<^verbatim>\<open>abs(b) >= float(cutoff)\<close>; the comparison is not
  strict and is on the absolute value.  The reported triple is the first such atom of
  the residue in iteration order, b-value included, and no (model, resi) pair is
  reported twice.  (On the rows of the two chains the key and the pair name the same
  residue, by \<open>key_of_chains\<close>.)
\<close>

theorem interfaceResidues_first_qualifying_atom:
  assumes "interfaceResidues h fl cmpx cA cB cutoff selName w = (Inr rVal, w')"
    and "fl cutoff = Inr c"
  shows "\<exists>rows. yielded (new_events w w') = [rows]
           \<and> (\<forall>x\<in>set rows. crosses c x \<longrightarrow> (\<exists>y\<in>set rVal. key_of y = key_of x))
           \<and> (\<forall>y\<in>set rVal. find (\<lambda>x. key_of x = key_of y \<and> crosses c x) rows = Some y)
           \<and> distinct (map residue_of rVal)"
proof -
  from interfaceResidues_rows[OF assms(1)] assms(2) obtain rows where
    y: "yielded (new_events w w') = [rows]" and r: "rVal = threshold_filter c rows"
    by blast
  have a: "\<forall>x\<in>set rows. crosses c x \<longrightarrow> (\<exists>y\<in>set rVal. key_of y = key_of x)"
  proof (intro ballI impI)
    fix x assume "x \<in> set rows" "crosses c x"
    then have "key_of x \<in> key_of ` {r \<in> set rows. crosses c r}" by blast
    then have "key_of x \<in> key_of ` set rVal" by (simp only: r threshold_filter_keys)
    then show "\<exists>y\<in>set rVal. key_of y = key_of x" by auto
  qed
  have b: "\<forall>y\<in>set rVal. find (\<lambda>x. key_of x = key_of y \<and> crosses c x) rows = Some y"
  proof
    fix y assume "y \<in> set rVal"
    then have "find (\<lambda>x. key_of x = key_of y) (filter (crosses c) rows) = Some y"
      unfolding r threshold_filter_def by (rule first_per_key_find)
    then have "find (\<lambda>x. crosses c x \<and> key_of x = key_of y) rows = Some y"
      by (simp only: find_filter)
    moreover have "(\<lambda>x. crosses c x \<and> key_of x = key_of y) = (\<lambda>x. key_of x = key_of y \<and> crosses c x)"
      by auto
    ultimately show "find (\<lambda>x. key_of x = key_of y \<and> crosses c x) rows = Some y" by simp
  qed
  have "distinct (map key_of rVal)"
    unfolding r threshold_filter_def by (rule first_per_key_distinct)
  then have "distinct (map residue_of rVal)" by (rule distinct_residues)
  with y a b show ?thesis by blast
qed

theorem interfaceResidues_first_qualifying_atom_witness:
  "fst (interfaceResidues
          (demo_host (PInt 0)
             [(''chA'', ''5'', 1/2), (''chA'', ''5'', - 2), (''chB'', ''7'', 3/2), (''chB'', ''8'', 1)] [])
          float_of_real ''cmpx'' ''c. A'' ''c. B'' (3/2) ''interface'' start)
     = Inr [(''chA'', ''5'', - 2), (''chB'', ''7'', 3/2)]
   \<and> find (\<lambda>x. key_of x = key_of (''chA'', ''5'', - 2) \<and> crosses (Fin (3/2)) x)
        [(''chA'', ''5'', 1/2), (''chA'', ''5'', - 2), (''chB'', ''7'', 3/2), (''chB'', ''8'', 1)]
     = Some (''chA'', ''5'', - 2)
   \<and> distinct (map residue_of [(''chA'', ''5'', - 2), (''chB'', ''7'', 3/2)])"
proof -
  let ?rows = "[(''chA'', ''5'', 1/2), (''chA'', ''5'', - 2), (''chB'', ''7'', 3/2), (''chB'', ''8'', 1 :: real)]"
  obtain W where run: "interfaceResidues (demo_host (PInt 0) ?rows []) float_of_real
        ''cmpx'' ''c. A'' ''c. B'' (3/2) ''interface'' start
        = (Inr [(''chA'', ''5'', - 2), (''chB'', ''7'', 3/2)], W)"
    and y: "yielded (new_events start W) = [?rows]"
    by (simp add: run_simps)
  have fl: "float_of_real (3/2) = Inr (Fin (3/2))" by (simp add: float_of_real_def)
  from interfaceResidues_first_qualifying_atom[OF run fl] y
  show ?thesis by (auto simp: run)
qed

subsection \<open>Lowering the cutoff\<close>

lemma crosses_zero: "crosses (Fin 0) r"
  by (cases r) (simp add: crosses_def)

lemma crosses_antitone: "py_le c1 c2 \<Longrightarrow> crosses c2 r \<Longrightarrow> crosses c1 r"
  by (cases r) (auto simp: crosses_def intro: py_ge_antitone)

text \<open>
  Claim C10, as the code has it.  For the same rows and two cutoffs with
  \<^verbatim>\<open>float(c1) <= float(c2)\<close>, every residue key reported with the larger cutoff is
  reported with the smaller one; the triple itself may differ, since the reported atom is
  the first that crosses the cutoff in use.  With cutoff 0 the result is the first row of
  every key that was iterated.
\<close>

theorem interfaceResidues_antitone_on_keys:
  assumes "interfaceResidues h1 fl cmpx cA cB cutoff1 selName w1 = (Inr rVal1, w1')"
    and "interfaceResidues h2 fl cmpx cA cB cutoff2 selName w2 = (Inr rVal2, w2')"
    and "yielded (new_events w1 w1') = yielded (new_events w2 w2')"
    and "fl cutoff1 = Inr c1" and "fl cutoff2 = Inr c2" and "py_le c1 c2"
  shows "\<exists>rows. yielded (new_events w1 w1') = [rows]
           \<and> key_of ` set rVal2 \<subseteq> key_of ` set rVal1
           \<and> (c1 = Fin 0 \<longrightarrow> rVal1 = first_per_key rows
                  \<and> key_of ` set rVal1 = key_of ` set rows
                  \<and> distinct (map key_of rVal1))"
proof -
  from interfaceResidues_rows[OF assms(1)] assms(4) obtain rows where
    y1: "yielded (new_events w1 w1') = [rows]" and r1: "rVal1 = threshold_filter c1 rows"
    by blast
  from interfaceResidues_rows[OF assms(2)] assms(5) obtain rows2 where
    y2: "yielded (new_events w2 w2') = [rows2]" and r2: "rVal2 = threshold_filter c2 rows2"
    by blast
  from y1 y2 assms(3) have same: "rows2 = rows" by simp
  have sub: "key_of ` set rVal2 \<subseteq> key_of ` set rVal1"
    unfolding r1 r2 same threshold_filter_keys
    using crosses_antitone[OF assms(6)] by blast
  have zero: "c1 = Fin 0 \<longrightarrow> rVal1 = first_per_key rows
                  \<and> key_of ` set rVal1 = key_of ` set rows
                  \<and> distinct (map key_of rVal1)"
  proof
    assume z: "c1 = Fin 0"
    have "filter (crosses (Fin 0)) rows = rows" by (simp add: crosses_zero)
    then have "rVal1 = first_per_key rows" by (simp add: r1 z threshold_filter_def)
    then show "rVal1 = first_per_key rows \<and> key_of ` set rVal1 = key_of ` set rows
                  \<and> distinct (map key_of rVal1)"
      by (simp add: first_per_key_keys first_per_key_distinct)
  qed
  from y1 sub zero show ?thesis by blast
qed

theorem interfaceResidues_antitone_on_keys_witness:
  "fst (interfaceResidues (demo_host (PInt 0) [(''chA'', ''5'', 1/2), (''chA'', ''5'', 2), (''chB'', ''7'', 1/4)] [])
          float_of_real ''cmpx'' ''c. A'' ''c. B'' 0 ''interface'' start)
     = Inr [(''chA'', ''5'', 1/2), (''chB'', ''7'', 1/4)]
   \<and> fst (interfaceResidues (demo_host (PInt 0) [(''chA'', ''5'', 1/2), (''chA'', ''5'', 2), (''chB'', ''7'', 1/4)] [])
          float_of_real ''cmpx'' ''c. A'' ''c. B'' 1 ''interface'' start)
     = Inr [(''chA'', ''5'', 2)]
   \<and> py_le (Fin 0) (Fin 1)
   \<and> key_of ` set [(''chA'', ''5'', 2)] \<subseteq> key_of ` set [(''chA'', ''5'', 1/2), (''chB'', ''7'', 1/4)]
   \<and> [(''chA'', ''5'', 1/2), (''chB'', ''7'', 1/4)]
       = first_per_key [(''chA'', ''5'', 1/2), (''chA'', ''5'', 2), (''chB'', ''7'', 1/4)]"
proof -
  let ?rows = "[(''chA'', ''5'', 1/2), (''chA'', ''5'', 2), (''chB'', ''7'', 1/4 :: real)]"
  obtain W0 where run0: "interfaceResidues (demo_host (PInt 0) ?rows []) float_of_real
        ''cmpx'' ''c. A'' ''c. B'' 0 ''interface'' start
        = (Inr [(''chA'', ''5'', 1/2), (''chB'', ''7'', 1/4)], W0)"
    and y0: "yielded (new_events start W0) = [?rows]"
    by (simp add: run_simps)
  obtain W1 where run1: "interfaceResidues (demo_host (PInt 0) ?rows []) float_of_real
        ''cmpx'' ''c. A'' ''c. B'' 1 ''interface'' start
        = (Inr [(''chA'', ''5'', 2)], W1)"
    and y1: "yielded (new_events start W1) = [?rows]"
    by (simp add: run_simps)
  have f0: "float_of_real 0 = Inr (Fin 0)" and f1: "float_of_real 1 = Inr (Fin 1)"
    by (simp_all add: float_of_real_def)
  have same: "yielded (new_events start W0) = yielded (new_events start W1)"
    by (simp add: y0 y1)
  have le: "py_le (Fin 0) (Fin 1)" by simp
  from interfaceResidues_antitone_on_keys[OF run0 run1 same f0 f1 le] y0
  have "key_of ` set [(''chA'', ''5'', 2 :: real)] \<subseteq> key_of ` set [(''chA'', ''5'', 1/2), (''chB'', ''7'', 1/4)]
      \<and> [(''chA'', ''5'', 1/2), (''chB'', ''7'', 1/4)] = first_per_key ?rows"
    by auto
  then show ?thesis by (simp add: run0 run1)
qed

text \<open>
  As the claim words it, for triples, antitonicity fails: with the cutoff lowered from 1
  to 0.1 the first atom of residue 5 crosses the cutoff too and replaces the second one.
\<close>

theorem triples_not_antitone_counterexample:
  "py_le (Fin (1/10)) (Fin 1)
   \<and> fst (interfaceResidues (demo_host (PInt 0) [(''chA'', ''5'', 1/2), (''chA'', ''5'', 2)] [])
          float_of_real ''cmpx'' ''c. A'' ''c. B'' 1 ''interface'' start)
     = Inr [(''chA'', ''5'', 2)]
   \<and> fst (interfaceResidues (demo_host (PInt 0) [(''chA'', ''5'', 1/2), (''chA'', ''5'', 2)] [])
          float_of_real ''cmpx'' ''c. A'' ''c. B'' (1/10) ''interface'' start)
     = Inr [(''chA'', ''5'', 1/2)]
   \<and> (''chA'', ''5'', 2 :: real) \<notin> set [(''chA'', ''5'', 1/2)]"
  by (simp add: run_simps)

subsection \<open>Refused calls\<close>

lemma no_failure_Nil: "no_failure []"
  by (simp add: no_failure_def)

lemma no_failure_append: "no_failure (t @ u) \<longleftrightarrow> no_failure t \<and> no_failure u"
  by (auto simp: no_failure_def)

lemma failure_last_Inr: "failure_last t (Inr x) \<Longrightarrow> no_failure t"
  by (auto simp: failure_last_def)

lemma failure_last_append:
  "no_failure t \<Longrightarrow> failure_last u r \<Longrightarrow> failure_last (t @ u) r"
  unfolding failure_last_def
proof (elim disjE exE conjE)
  assume "no_failure t" "no_failure u"
  then show "no_failure (t @ u) \<or>
    (\<exists>pre c e. t @ u = pre @ [(c, Failed e)] \<and> no_failure pre \<and> r = Inl e)"
    by (simp add: no_failure_append)
next
  fix pre c e
  assume "no_failure t" "u = pre @ [(c, Failed e)]" "no_failure pre" "r = Inl e"
  then have "t @ u = (t @ pre) @ [(c, Failed e)] \<and> no_failure (t @ pre) \<and> r = Inl e"
    by (simp add: no_failure_append)
  then show "no_failure (t @ u) \<or>
    (\<exists>pre c e. t @ u = pre @ [(c, Failed e)] \<and> no_failure pre \<and> r = Inl e)"
    by blast
qed

lemma unhandledD:
  "unhandled m \<Longrightarrow> m w = (r, w') \<Longrightarrow>
     issued w' = issued w @ new_events w w' \<and> failure_last (new_events w w') r"
proof -
  assume "unhandled m" "m w = (r, w')"
  then obtain t where t: "issued w' = issued w @ t" "failure_last t r"
    unfolding unhandled_def by blast
  then have "new_events w w' = t" by (simp add: new_events_append)
  with t show ?thesis by simp
qed

lemma unhandled_ret: "unhandled (ret x)"
  by (auto simp: unhandled_def ret_def failure_last_def no_failure_def)

lemma unhandled_raise: "unhandled (raise e)"
  by (auto simp: unhandled_def raise_def failure_last_def no_failure_def)

lemma unhandled_assign: "unhandled (assign_stored_r xs)"
  by (auto simp: unhandled_def assign_stored_r_def failure_last_def no_failure_def)

lemma unhandled_call: "unhandled (call h c)"
  unfolding unhandled_def
proof (intro allI impI)
  fix w r w' assume a: "call h c w = (r, w')"
  show "\<exists>t. issued w' = issued w @ t \<and> failure_last t r"
  proof (cases r)
    case (Inl e)
    with a have "issued w' = issued w @ [(c, Failed e)]"
      by (auto simp: call_def split: prod.splits sum.splits)
    moreover have "failure_last [(c, Failed e)] r"
      unfolding failure_last_def using Inl no_failure_Nil by fastforce
    ultimately show ?thesis by blast
  next
    case (Inr v)
    with a have "issued w' = issued w @ [(c, Returned v)]" by (simp add: call_Inr)
    moreover have "failure_last [(c, Returned v)] r"
      by (simp add: failure_last_def no_failure_def)
    ultimately show ?thesis by blast
  qed
qed

lemma unhandled_iterate: "unhandled (iterate h sel expr)"
  unfolding unhandled_def
proof (intro allI impI)
  fix w r w' assume a: "iterate h sel expr w = (r, w')"
  show "\<exists>t. issued w' = issued w @ t \<and> failure_last t r"
  proof (cases r)
    case (Inl e)
    with a have "issued w' = issued w @ [(Iterate sel expr, Failed e)]"
      by (auto simp: iterate_def split: prod.splits sum.splits)
    moreover have "failure_last [(Iterate sel expr, Failed e)] r"
      unfolding failure_last_def using Inl no_failure_Nil by fastforce
    ultimately show ?thesis by blast
  next
    case (Inr rows)
    with a have "issued w' = issued w @ [(Iterate sel expr, Yielded rows)]"
      by (simp add: iterate_Inr)
    moreover have "failure_last [(Iterate sel expr, Yielded rows)] r"
      by (simp add: failure_last_def no_failure_def)
    ultimately show ?thesis by blast
  qed
qed

lemma unhandled_then_do:
  assumes "unhandled m" and "\<And>x. unhandled (f x)"
  shows "unhandled (then_do m f)"
  unfolding unhandled_def
proof (intro allI impI)
  fix w r w' assume a: "then_do m f w = (r, w')"
  obtain r1 w1 where m: "m w = (r1, w1)" by (cases "m w")
  from unhandledD[OF assms(1) m] obtain t1 where
    t1: "issued w1 = issued w @ t1" "failure_last t1 r1" by blast
  show "\<exists>t. issued w' = issued w @ t \<and> failure_last t r"
  proof (cases r1)
    case (Inl e)
    with a m have "r = Inl e" "w' = w1" by (simp_all add: then_do_def)
    with t1 Inl show ?thesis by (auto simp: failure_last_def)
  next
    case (Inr x)
    with a m have "f x w1 = (r, w')" by (simp add: then_do_def)
    from unhandledD[OF assms(2) this] obtain t2 where
      t2: "issued w' = issued w1 @ t2" "failure_last t2 r" by blast
    from t1(2) Inr have "no_failure t1" by (auto dest: failure_last_Inr)
    from this t2(2) have "failure_last (t1 @ t2) r" by (rule failure_last_append)
    with t1(1) t2(1) show ?thesis by (intro exI[of _ "t1 @ t2"]) simp
  qed
qed

lemma unhandled_do_all: "unhandled (do_all h cs)"
  by (induction cs) (auto intro: unhandled_ret unhandled_then_do unhandled_call)

lemma unhandled_if: "unhandled m \<Longrightarrow> unhandled n \<Longrightarrow> unhandled (if b then m else n)"
  by simp

lemma unhandled_residue_loop: "unhandled (residue_loop h fl cutoff sel1 rows seen rVal)"
proof (induction rows arbitrary: seen rVal)
  case Nil
  show ?case by (simp add: unhandled_ret)
next
  case (Cons row rest)
  obtain model resi diff where row: "row = (model, resi, diff)" by (cases row)
  show ?case
    unfolding row residue_loop.simps Let_def
    by (cases "fl cutoff")
       (auto intro!: unhandled_raise unhandled_then_do unhandled_call Cons.IH)
qed

lemmas unhandled_intros = unhandled_ret unhandled_raise unhandled_assign unhandled_call
  unhandled_iterate
  unhandled_do_all unhandled_residue_loop unhandled_then_do

lemma unhandled_interfaceResidues:
  "unhandled (interfaceResidues h fl cmpx cA cB cutoff selName)"
  unfolding interfaceResidues_def Let_def by (intro unhandled_intros)

lemma unhandled_initial_orientation: "unhandled (initial_orientation h path config)"
  unfolding initial_orientation_def by (intro unhandled_intros unhandled_if)

lemma unhandled_reset_view: "unhandled (reset_view h config)"
  unfolding reset_view_def by (intro unhandled_intros unhandled_if)

lemma unhandled_split_chains: "unhandled (split_chains h)"
  unfolding split_chains_def by (intro unhandled_intros)

lemma unhandled_ray_settings: "unhandled (ray_settings h)"
  unfolding ray_settings_def by (intro unhandled_intros)

lemma unhandled_hydrophobicity: "unhandled (hydrophobicity h selection)"
  unfolding hydrophobicity_def Let_def by (intro unhandled_intros)

lemma unhandled_run_op: "unhandled (run_op h fl op)"
  by (cases op)
     (auto intro!: unhandled_then_do unhandled_ret unhandled_interfaceResidues
        unhandled_initial_orientation unhandled_reset_view unhandled_split_chains
        unhandled_ray_settings unhandled_hydrophobicity)

lemma failure_last_elementary:
  assumes "failure_last t r" and "t = pre @ (c, Failed e) # post"
  shows "post = [] \<and> r = Inl e"
proof -
  have "\<not> no_failure t" using assms(2) by (auto simp: no_failure_def)
  with assms(1) obtain pre' c' e' where
    p: "t = pre' @ [(c', Failed e')]" "no_failure pre'" "r = Inl e'"
    by (auto simp: failure_last_def)
  show ?thesis
  proof (cases post rule: rev_cases)
    case Nil
    with assms(2) p(1) have "(c, Failed e) = (c', Failed e')" by simp
    with Nil p(3) show ?thesis by simp
  next
    case (snoc ys y)
    with assms(2) p(1) have "pre' = pre @ (c, Failed e) # ys" by simp
    with p(2) show ?thesis by (auto simp: no_failure_def)
  qed
qed

text \<open>
  Claim C6.  No operation handles an exception.  When the host refuses a call during any
  operation, that call is the last event of the run: nothing is issued after it, so
  \<open>interfaceResidues\<close> neither deletes its temporary objects nor restores
  \<^verbatim>\<open>dot_solvent\<close>; and the result of the operation is the host's exception, unchanged.
\<close>

theorem failures_propagate:
  assumes "run_op h fl op w = (r, w')"
  shows "\<exists>t. issued w' = issued w @ t
           \<and> (\<forall>pre c e post. t = pre @ (c, Failed e) # post \<longrightarrow> post = [] \<and> r = Inl e)"
proof -
  from unhandledD[OF unhandled_run_op assms]
  have "issued w' = issued w @ new_events w w'" and "failure_last (new_events w w') r"
    by simp_all
  then show ?thesis using failure_last_elementary by blast
qed

theorem failures_propagate_witness:
  "fst (run_op (demo_host (PInt 0) [] [Get_area ''tempComplex'' 1]) float_of_real
          (InterfaceResidues ''cmpx'' ''c. A'' ''c. B'' 1 ''interface'') start)
     = Inl (CmdException ''refused'')
   \<and> new_events start
        (snd (run_op (demo_host (PInt 0) [] [Get_area ''tempComplex'' 1]) float_of_real
                (InterfaceResidues ''cmpx'' ''c. A'' ''c. B'' 1 ''interface'') start))
     = [(Get ''dot_solvent'', Returned (PInt 0)),
        (Set ''dot_solvent'' (PInt 1), Returned PNone),
        (Create ''tempComplex'' ''cmpx'', Returned PNone),
        (Disable ''cmpx'', Returned PNone),
        (Remove ''tempComplex and not (polymer and (c. A or c. B))'', Returned PNone),
        (Get_area ''tempComplex'' 1, Failed (CmdException ''refused''))]"
  (is "fst ?run = ?e \<and> new_events start (snd ?run) = ?t")
proof -
  have f: "fst ?run = ?e" by (simp add: run_simps)
  have tr: "new_events start (snd ?run) = ?t" by (simp add: run_simps)
  have run: "?run = (fst ?run, snd ?run)" by simp
  from failures_propagate[OF run] f tr show ?thesis by simp
qed

subsection \<open>Return values\<close>

text \<open>
  Claim C3, as the code has it.  \<open>interfaceResidues\<close> returns its list of
  (model, resi, dASA) triples, two strings and a number each; the other five operations
  have no \<^verbatim>\<open>return\<close> statement and return \<^verbatim>\<open>None\<close>.
\<close>

theorem operations_return:
  assumes "run_op h fl op w = (Inr v, w')"
  shows "case op of
           InterfaceResidues cmpx cA cB cutoff selName \<Rightarrow>
             (\<exists>rVal. interfaceResidues h fl cmpx cA cB cutoff selName w = (Inr rVal, w')
                \<and> v = PList (map row_obj rVal)) \<and> simple_result v
         | Initial_orientation path config \<Rightarrow> v = PNone
         | Reset_view config \<Rightarrow> v = PNone
         | Split_chains \<Rightarrow> v = PNone
         | Ray_settings \<Rightarrow> v = PNone
         | Hydrophobicity selection \<Rightarrow> v = PNone"
proof (cases op)
  case (InterfaceResidues cmpx cA cB cutoff selName)
  with assms obtain rVal where
    "interfaceResidues h fl cmpx cA cB cutoff selName w = (Inr rVal, w')"
    "v = PList (map row_obj rVal)"
    by (auto simp: then_do_Inr ret_def)
  moreover have "simple_result (PList (map row_obj rVal))"
    by (auto simp: row_obj_def)
  ultimately show ?thesis by (simp add: InterfaceResidues)
next
  case (Initial_orientation path config)
  with assms show ?thesis
    by (auto simp: initial_orientation_def then_do_Inr ret_def split: if_splits)
next
  case (Reset_view config)
  with assms show ?thesis
    by (auto simp: reset_view_def then_do_Inr ret_def split: if_splits)
next
  case Split_chains
  with assms show ?thesis
    by (auto simp: split_chains_def then_do_Inr ret_def)
next
  case Ray_settings
  with assms show ?thesis
    by (auto simp: ray_settings_def then_do_Inr ret_def)
next
  case (Hydrophobicity selection)
  with assms show ?thesis
    by (auto simp: hydrophobicity_def Let_def then_do_Inr ret_def)
qed

theorem operations_return_witness:
  "fst (run_op (demo_host (PInt 0) [(''chA'', ''5'', - 2), (''chB'', ''8'', 1)] []) float_of_real
          (InterfaceResidues ''cmpx'' ''c. A'' ''c. B'' (3/2) ''interface'') start)
     = Inr (PList [PTuple [PStr ''chA'', PStr ''5'', PFloat (- 2)]])
   \<and> simple_result (PList [PTuple [PStr ''chA'', PStr ''5'', PFloat (- 2)]])"
  (is "fst ?run = Inr ?v \<and> _")
proof -
  have f: "fst ?run = Inr ?v" by (simp add: run_simps row_obj_def)
  then have run: "?run = (Inr ?v, snd ?run)" by (metis prod.collapse)
  from operations_return[OF run] f show ?thesis by simp
qed

text \<open>
  As the claim words it, for every operation, it fails: \<open>reset_view\<close> returns
  \<^verbatim>\<open>None\<close>, which is neither text nor a number.
\<close>

theorem reset_view_returns_None_counterexample:
  "fst (run_op (demo_host (PInt 0) [] []) float_of_real (Reset_view (PStr ''1'')) start)
     = Inr PNone
   \<and> \<not> simple_result PNone"
  by (simp add: reset_view_def run_simps)

subsection \<open>Two runs with the same answers\<close>

lemma comparable_refl: "comparable xs xs"
  by (simp add: comparable_def)

lemma comparable_appendD: "comparable (xs @ ys) (xs' @ ys') \<Longrightarrow> comparable xs xs'"
  unfolding comparable_def
  by (metis prefix_append prefix_def append_prefixD prefix_order.dual_order.trans)

lemma comparable_append_same: "comparable (xs @ ys) (xs @ ys') \<longleftrightarrow> comparable ys ys'"
  by (simp add: comparable_def)

lemma comparable_single: "comparable [x] [y] \<longleftrightarrow> x = y"
  by (auto simp: comparable_def)

lemma iterate_result:
  "iterate h sel expr w = (r, w') \<Longrightarrow>
     new_events w w' = [(Iterate sel expr, case r of Inl e \<Rightarrow> Failed e | Inr rows \<Rightarrow> Yielded rows)]"
  by (auto simp: iterate_def new_events_def split: prod.splits sum.splits)

lemma determined_ret: "determined (ret x) (ret x)"
  by (simp add: determined_def ret_def new_events_same)

lemma determined_raise: "determined (raise e) (raise e)"
  by (simp add: determined_def raise_def new_events_same)

lemma determined_assign: "determined (assign_stored_r xs) (assign_stored_r xs)"
  by (simp add: determined_def assign_stored_r_def new_events_def)

lemma determined_call: "determined (call h1 c) (call h2 c)"
  unfolding determined_def
proof (intro allI impI)
  fix w1 w2 r1 r2 w1' w2'
  assume a: "call h1 c w1 = (r1, w1')" "call h2 c w2 = (r2, w2')"
    and c: "comparable (responses (new_events w1 w1')) (responses (new_events w2 w2'))"
  from c have "(case r1 of Inl e \<Rightarrow> Failed e | Inr v \<Rightarrow> Returned v)
             = (case r2 of Inl e \<Rightarrow> Failed e | Inr v \<Rightarrow> Returned v)"
    by (simp add: call_result[OF a(1)] call_result[OF a(2)] responses_def comparable_single)
  then have "r1 = r2" by (cases r1; cases r2) simp_all
  then show "commands (new_events w1 w1') = commands (new_events w2 w2')
        \<and> responses (new_events w1 w1') = responses (new_events w2 w2') \<and> r1 = r2"
    by (simp add: call_result[OF a(1)] call_result[OF a(2)] responses_def commands_def)
qed

lemma determined_iterate: "determined (iterate h1 sel expr) (iterate h2 sel expr)"
  unfolding determined_def
proof (intro allI impI)
  fix w1 w2 r1 r2 w1' w2'
  assume a: "iterate h1 sel expr w1 = (r1, w1')" "iterate h2 sel expr w2 = (r2, w2')"
    and c: "comparable (responses (new_events w1 w1')) (responses (new_events w2 w2'))"
  from c have "(case r1 of Inl e \<Rightarrow> Failed e | Inr v \<Rightarrow> Yielded v)
             = (case r2 of Inl e \<Rightarrow> Failed e | Inr v \<Rightarrow> Yielded v)"
    by (simp add: iterate_result[OF a(1)] iterate_result[OF a(2)] responses_def comparable_single)
  then have "r1 = r2" by (cases r1; cases r2) simp_all
  then show "commands (new_events w1 w1') = commands (new_events w2 w2')
        \<and> responses (new_events w1 w1') = responses (new_events w2 w2') \<and> r1 = r2"
    by (simp add: iterate_result[OF a(1)] iterate_result[OF a(2)] responses_def commands_def)
qed

lemma then_do_events:
  assumes "unhandled m" and "\<And>x. unhandled (f x)" and "then_do m f w = (r, w')"
  shows "\<exists>a v. m w = (a, v)
           \<and> (case a of
                Inl e \<Rightarrow> r = Inl e \<and> new_events w w' = new_events w v
              | Inr x \<Rightarrow> f x v = (r, w') \<and> new_events w w' = new_events w v @ new_events v w')"
proof -
  obtain a v where m: "m w = (a, v)" by (cases "m w")
  from unhandledD[OF assms(1) m] have e1: "issued v = issued w @ new_events w v" by simp
  show ?thesis
  proof (cases a)
    case (Inl e)
    with assms(3) m have "r = Inl e" "w' = v" by (simp_all add: then_do_def)
    with m Inl show ?thesis by simp
  next
    case (Inr x)
    with assms(3) m have f: "f x v = (r, w')" by (simp add: then_do_def)
    from unhandledD[OF assms(2) f] have "issued w' = issued v @ new_events v w'" by simp
    with e1 have "issued w' = issued w @ (new_events w v @ new_events v w')" by simp
    then have "new_events w w' = new_events w v @ new_events v w'" by (rule new_events_append)
    with m f Inr show ?thesis by simp
  qed
qed

lemma determined_then_do:
  assumes u: "unhandled m1" "unhandled m2" "\<And>x. unhandled (f1 x)" "\<And>x. unhandled (f2 x)"
    and d: "determined m1 m2" "\<And>x. determined (f1 x) (f2 x)"
  shows "determined (then_do m1 f1) (then_do m2 f2)"
  unfolding determined_def
proof (intro allI impI)
  fix w1 w2 r1 r2 w1' w2'
  assume a: "then_do m1 f1 w1 = (r1, w1')" "then_do m2 f2 w2 = (r2, w2')"
    and c: "comparable (responses (new_events w1 w1')) (responses (new_events w2 w2'))"
  from then_do_events[OF u(1) u(3) a(1)] obtain a1 v1 where
    m1: "m1 w1 = (a1, v1)" and
    k1: "case a1 of Inl e \<Rightarrow> r1 = Inl e \<and> new_events w1 w1' = new_events w1 v1
         | Inr x \<Rightarrow> f1 x v1 = (r1, w1')
             \<and> new_events w1 w1' = new_events w1 v1 @ new_events v1 w1'"
    by blast
  from then_do_events[OF u(2) u(4) a(2)] obtain a2 v2 where
    m2: "m2 w2 = (a2, v2)" and
    k2: "case a2 of Inl e \<Rightarrow> r2 = Inl e \<and> new_events w2 w2' = new_events w2 v2
         | Inr x \<Rightarrow> f2 x v2 = (r2, w2')
             \<and> new_events w2 w2' = new_events w2 v2 @ new_events v2 w2'"
    by blast
  obtain s1 where s1: "new_events w1 w1' = new_events w1 v1 @ s1"
    using k1 by (cases a1) auto
  obtain s2 where s2: "new_events w2 w2' = new_events w2 v2 @ s2"
    using k2 by (cases a2) auto
  from c have "comparable (responses (new_events w1 v1)) (responses (new_events w2 v2))"
    unfolding s1 s2 responses_def map_append by (rule comparable_appendD)
  with d(1) m1 m2 have h: "commands (new_events w1 v1) = commands (new_events w2 v2)"
    "responses (new_events w1 v1) = responses (new_events w2 v2)" "a1 = a2"
    unfolding determined_def by blast+
  show "commands (new_events w1 w1') = commands (new_events w2 w2')
        \<and> responses (new_events w1 w1') = responses (new_events w2 w2') \<and> r1 = r2"
  proof (cases a1)
    case (Inl e)
    with h(3) have a2: "a2 = Inl e" by simp
    from k1 Inl have "r1 = Inl e" "new_events w1 w1' = new_events w1 v1" by simp_all
    moreover from k2 a2 have "r2 = Inl e" "new_events w2 w2' = new_events w2 v2" by simp_all
    ultimately show ?thesis using h by simp
  next
    case (Inr x)
    with h(3) have a2: "a2 = Inr x" by simp
    from k1 Inr k2 a2 have f: "f1 x v1 = (r1, w1')" "f2 x v2 = (r2, w2')"
      and n: "new_events w1 w1' = new_events w1 v1 @ new_events v1 w1'"
             "new_events w2 w2' = new_events w2 v2 @ new_events v2 w2'"
      by simp_all
    from c have "comparable (responses (new_events v1 w1')) (responses (new_events v2 w2'))"
      using h(2) by (simp add: n responses_def comparable_append_same)
    with d(2) f have "commands (new_events v1 w1') = commands (new_events v2 w2')"
      "responses (new_events v1 w1') = responses (new_events v2 w2')" "r1 = r2"
      unfolding determined_def by blast+
    with h show ?thesis by (simp add: n commands_def responses_def)
  qed
qed

lemma determined_do_all: "determined (do_all h1 cs) (do_all h2 cs)"
  by (induction cs)
     (auto intro!: determined_ret determined_then_do determined_call unhandled_intros)

lemma determined_residue_loop:
  "determined (residue_loop h1 fl cutoff sel1 rows seen rVal)
              (residue_loop h2 fl cutoff sel1 rows seen rVal)"
proof (induction rows arbitrary: seen rVal)
  case Nil
  show ?case by (simp add: determined_ret)
next
  case (Cons row rest)
  obtain model resi diff where row: "row = (model, resi, diff)" by (cases row)
  show ?case
    unfolding row residue_loop.simps Let_def
    by (cases "fl cutoff")
       (auto intro!: determined_raise determined_then_do determined_call Cons.IH
          unhandled_intros)
qed

lemmas determined_intros = determined_ret determined_raise determined_assign determined_call
  determined_iterate
  determined_do_all determined_residue_loop

lemma determined_interfaceResidues:
  "determined (interfaceResidues h1 fl cmpx cA cB cutoff selName)
              (interfaceResidues h2 fl cmpx cA cB cutoff selName)"
  unfolding interfaceResidues_def Let_def
  by (intro determined_then_do determined_intros unhandled_intros)

lemma determined_run_op: "determined (run_op h1 fl op) (run_op h2 fl op)"
proof (cases op)
  case (InterfaceResidues cmpx cA cB cutoff selName)
  show ?thesis
    unfolding InterfaceResidues run_op.simps
    by (intro determined_then_do determined_interfaceResidues determined_ret
          unhandled_interfaceResidues unhandled_ret)
next
  case (Initial_orientation path config)
  show ?thesis
    unfolding Initial_orientation run_op.simps initial_orientation_def
    by (intro determined_then_do determined_intros unhandled_intros unhandled_if)
       (auto intro!: determined_then_do determined_intros unhandled_intros)
next
  case (Reset_view config)
  show ?thesis
    unfolding Reset_view run_op.simps reset_view_def
    by (auto intro!: determined_then_do determined_intros unhandled_intros)
next
  case Split_chains
  show ?thesis
    unfolding Split_chains run_op.simps split_chains_def
    by (intro determined_then_do determined_intros unhandled_intros)
next
  case Ray_settings
  show ?thesis
    unfolding Ray_settings run_op.simps ray_settings_def
    by (intro determined_then_do determined_intros unhandled_intros)
next
  case (Hydrophobicity selection)
  show ?thesis
    unfolding Hydrophobicity run_op.simps hydrophobicity_def Let_def
    by (intro determined_then_do determined_intros unhandled_intros)
qed

text \<open>
  Claim C7.  Two runs of one operation with the same arguments, against any two hosts in
  any two states, in which the host gave the same answer to each call, issued the same
  calls in the same order and returned the same result.
\<close>

theorem operations_deterministic:
  assumes "run_op h1 fl op w1 = (r1, w1')" and "run_op h2 fl op w2 = (r2, w2')"
    and "responses (new_events w1 w1') = responses (new_events w2 w2')"
  shows "commands (new_events w1 w1') = commands (new_events w2 w2') \<and> r1 = r2"
proof -
  have "comparable (responses (new_events w1 w1')) (responses (new_events w2 w2'))"
    by (simp add: assms(3) comparable_refl)
  with determined_run_op[of h1 fl op h2] assms(1,2) show ?thesis
    unfolding determined_def by blast
qed

theorem operations_deterministic_witness:
  "responses (new_events start
      (snd (run_op (demo_host (PInt 0) [(''chA'', ''5'', - 2), (''chB'', ''8'', 1)] [])
              float_of_real (InterfaceResidues ''cmpx'' ''c. A'' ''c. B'' (3/2) ''interface'') start)))
   = responses (new_events \<lparr>host_state = 0, issued = [], stored_r = []\<rparr>
      (snd (run_op (counting_host (PInt 0) [(''chA'', ''5'', - 2), (''chB'', ''8'', 1)])
              float_of_real (InterfaceResidues ''cmpx'' ''c. A'' ''c. B'' (3/2) ''interface'')
              \<lparr>host_state = 0, issued = [], stored_r = []\<rparr>)))
   \<and> commands (new_events start
      (snd (run_op (demo_host (PInt 0) [(''chA'', ''5'', - 2), (''chB'', ''8'', 1)] [])
              float_of_real (InterfaceResidues ''cmpx'' ''c. A'' ''c. B'' (3/2) ''interface'') start)))
   = commands (new_events \<lparr>host_state = 0, issued = [], stored_r = []\<rparr>
      (snd (run_op (counting_host (PInt 0) [(''chA'', ''5'', - 2), (''chB'', ''8'', 1)])
              float_of_real (InterfaceResidues ''cmpx'' ''c. A'' ''c. B'' (3/2) ''interface'')
              \<lparr>host_state = 0, issued = [], stored_r = []\<rparr>)))
   \<and> fst (run_op (demo_host (PInt 0) [(''chA'', ''5'', - 2), (''chB'', ''8'', 1)] [])
              float_of_real (InterfaceResidues ''cmpx'' ''c. A'' ''c. B'' (3/2) ''interface'') start)
   = fst (run_op (counting_host (PInt 0) [(''chA'', ''5'', - 2), (''chB'', ''8'', 1)])
              float_of_real (InterfaceResidues ''cmpx'' ''c. A'' ''c. B'' (3/2) ''interface'')
              \<lparr>host_state = 0, issued = [], stored_r = []\<rparr>)"
  (is "responses (new_events start (snd ?run1)) = responses (new_events ?w2 (snd ?run2)) \<and> _")
proof -
  have resp: "responses (new_events start (snd ?run1)) = responses (new_events ?w2 (snd ?run2))"
    by (simp add: run_simps counting_host_def responses_def)
  have run1: "?run1 = (fst ?run1, snd ?run1)" and run2: "?run2 = (fst ?run2, snd ?run2)"
    by simp_all
  from operations_deterministic[OF run1 run2 resp] resp show ?thesis by simp
qed

subsection \<open>What interfaceResidues leaves behind\<close>

lemma names_left_append: "names_left (cs @ ds) ns = names_left ds (names_left cs ns)"
  by (induction cs ns rule: names_left.induct) simp_all

lemma shown_append: "shown n (cs @ ds) v = shown n ds (shown n cs v)"
  by (induction n cs v rule: shown.induct) simp_all

lemma names_left_expand:
  "s \<in> ns \<Longrightarrow> names_left (map (expand_cmd s) rows) ns = ns"
  by (induction rows) (auto simp: expand_cmd_def insert_absorb)

lemma shown_expand: "shown n (map (expand_cmd s) rows) v = v"
  by (induction rows) (auto simp: expand_cmd_def)

lemma Delete_notin_expand: "Delete n \<notin> set (map (expand_cmd s) rows)"
  by (auto simp: expand_cmd_def)

lemma interfaceResidues_commands:
  assumes "interfaceResidues h fl cmpx cA cB cutoff selName w = (Inr rVal, w')"
  shows "\<exists>oldDS t. new_events w w' = (Get ''dot_solvent'', Returned oldDS) # t
     \<and> commands (new_events w w') =
         Get ''dot_solvent'' # interface_prologue cmpx cA cB
         @ Iterate ''chA or chB'' ''stored.r.append((model,resi,b))''
         # [Enable cmpx, Select (selName @ ''1'') ''none'']
         @ map (expand_cmd (selName @ ''1'')) rVal
         @ interface_epilogue cmpx selName oldDS"
proof -
  from interfaceResidues_Inr[OF assms] obtain oldDS rows t0 t1 t2 t3 where
    n: "new_events w w' =
       (Get ''dot_solvent'', Returned oldDS) # t0
       @ (Iterate ''chA or chB'' ''stored.r.append((model,resi,b))'', Yielded rows) # t1 @ t2 @ t3"
    and c: "commands t0 = interface_prologue cmpx cA cB"
       "commands t1 = [Enable cmpx, Select (selName @ ''1'') ''none'']"
       "commands t2 = map (expand_cmd (selName @ ''1'')) rVal"
       "commands t3 = interface_epilogue cmpx selName oldDS"
    by blast
  have "commands (new_events w w') =
         Get ''dot_solvent'' # commands t0
         @ Iterate ''chA or chB'' ''stored.r.append((model,resi,b))''
         # commands t1 @ commands t2 @ commands t3"
    by (simp add: n commands_def)
  with n c show ?thesis by simp
qed

text \<open>
  Claim C4, as the code has it.  After a run of \<open>interfaceResidues\<close> that completes, in
  which \<open>selName\<close> and the name of the complex differ from each other and from the
  temporary names: the first call read \<^verbatim>\<open>dot_solvent\<close> and the last call sets it to
  the value read; of the names the calls introduced exactly \<open>selName\<close> is left, the four
  temporary names being deleted; the last enable or disable call on the complex is an
  enable and the complex is not deleted; and \<^verbatim>\<open>stored.r\<close> is left holding the rows
  of the iteration.  Nothing is said of a run whose names collide.
\<close>

theorem interfaceResidues_cleans_up:
  assumes "interfaceResidues h fl cmpx cA cB cutoff selName w = (Inr rVal, w')"
    and "selName \<notin> {''tempComplex'', ''chA'', ''chB''}"
    and "cmpx \<notin> {''tempComplex'', ''chA'', ''chB'', selName @ ''1'', selName}"
  shows "\<exists>oldDS rows. hd (new_events w w') = (Get ''dot_solvent'', Returned oldDS)
     \<and> last (commands (new_events w w')) = Set ''dot_solvent'' oldDS
     \<and> names_left (commands (new_events w w')) {} = {selName}
     \<and> names_left (commands (new_events w w')) {}
          \<inter> {''tempComplex'', ''chA'', ''chB'', selName @ ''1''} = {}
     \<and> shown cmpx (commands (new_events w w')) None = Some True
     \<and> Delete cmpx \<notin> set (commands (new_events w w'))
     \<and> yielded (new_events w w') = [rows]
     \<and> stored_r w' = rows"
proof -
  from interfaceResidues_Inr[OF assms(1)] obtain oldDS rows t0 t1 t2 t3 where
    n: "new_events w w' =
       (Get ''dot_solvent'', Returned oldDS) # t0
       @ (Iterate ''chA or chB'' ''stored.r.append((model,resi,b))'', Yielded rows) # t1 @ t2 @ t3"
    and y: "yielded t0 = []" "yielded t1 = []" "yielded t2 = []" "yielded t3 = []"
    and st: "stored_r w' = rows"
    by blast
  have yl: "yielded (new_events w w') = [rows]"
    using y by (simp add: n yielded_append)
  from interfaceResidues_commands[OF assms(1)] obtain oldDS' t where
    n': "new_events w w' = (Get ''dot_solvent'', Returned oldDS') # t"
    and c: "commands (new_events w w') =
         Get ''dot_solvent'' # interface_prologue cmpx cA cB
         @ Iterate ''chA or chB'' ''stored.r.append((model,resi,b))''
         # [Enable cmpx, Select (selName @ ''1'') ''none'']
         @ map (expand_cmd (selName @ ''1'')) rVal
         @ interface_epilogue cmpx selName oldDS'"
    by blast
  let ?s1 = "selName @ ''1''"
  have ne: "selName \<noteq> ?s1" by simp
  have l: "last (commands (new_events w w')) = Set ''dot_solvent'' oldDS'"
    by (simp add: c interface_epilogue_def)
  have before: "names_left (Get ''dot_solvent'' # interface_prologue cmpx cA cB
         @ Iterate ''chA or chB'' ''stored.r.append((model,resi,b))''
         # [Enable cmpx, Select ?s1 ''none'']) {}
       = {''tempComplex'', ''chA'', ''chB'', ?s1}"
    by (auto simp: interface_prologue_def)
  have loop: "names_left (map (expand_cmd ?s1) rVal) {''tempComplex'', ''chA'', ''chB'', ?s1}
       = {''tempComplex'', ''chA'', ''chB'', ?s1}"
    by (rule names_left_expand) simp
  have after: "names_left (interface_epilogue cmpx selName oldDS')
         {''tempComplex'', ''chA'', ''chB'', ?s1}
       = {selName}"
    using ne assms(2) by (auto simp: interface_epilogue_def)
  have c': "commands (new_events w w') =
         (Get ''dot_solvent'' # interface_prologue cmpx cA cB
         @ Iterate ''chA or chB'' ''stored.r.append((model,resi,b))''
         # [Enable cmpx, Select ?s1 ''none''])
         @ map (expand_cmd ?s1) rVal
         @ interface_epilogue cmpx selName oldDS'"
    by (simp add: c)
  have names: "names_left (commands (new_events w w')) {} = {selName}"
    unfolding c' names_left_append before loop after ..
  have sh: "shown cmpx (commands (new_events w w')) None = Some True"
    unfolding c' shown_append shown_expand
    by (simp add: interface_prologue_def interface_epilogue_def)
  have del: "Delete cmpx \<notin> set (commands (new_events w w'))"
    unfolding c' using assms(3)
    by (auto simp: interface_prologue_def interface_epilogue_def expand_cmd_def)
  have h: "hd (new_events w w') = (Get ''dot_solvent'', Returned oldDS')"
    by (simp add: n')
  from ne assms(2) have "{selName} \<inter> {''tempComplex'', ''chA'', ''chB'', ?s1} = {}"
    by auto
  with h l names sh del yl st show ?thesis
    by (intro exI[of _ oldDS'] exI[of _ rows]) simp
qed

theorem interfaceResidues_cleans_up_witness:
  "fst (interfaceResidues (demo_host (PStr ''off'') [(''chA'', ''5'', - 2), (''chB'', ''8'', 1)] [])
          float_of_real ''cmpx'' ''c. A'' ''c. B'' (3/2) ''interface'' start)
     = Inr [(''chA'', ''5'', - 2)]
   \<and> last (commands (new_events start
        (snd (interfaceResidues (demo_host (PStr ''off'') [(''chA'', ''5'', - 2), (''chB'', ''8'', 1)] [])
          float_of_real ''cmpx'' ''c. A'' ''c. B'' (3/2) ''interface'' start))))
     = Set ''dot_solvent'' (PStr ''off'')
   \<and> names_left (commands (new_events start
        (snd (interfaceResidues (demo_host (PStr ''off'') [(''chA'', ''5'', - 2), (''chB'', ''8'', 1)] [])
          float_of_real ''cmpx'' ''c. A'' ''c. B'' (3/2) ''interface'' start)))) {}
     = {''interface''}
   \<and> shown ''cmpx'' (commands (new_events start
        (snd (interfaceResidues (demo_host (PStr ''off'') [(''chA'', ''5'', - 2), (''chB'', ''8'', 1)] [])
          float_of_real ''cmpx'' ''c. A'' ''c. B'' (3/2) ''interface'' start)))) None
     = Some True
   \<and> stored_r
        (snd (interfaceResidues (demo_host (PStr ''off'') [(''chA'', ''5'', - 2), (''chB'', ''8'', 1)] [])
          float_of_real ''cmpx'' ''c. A'' ''c. B'' (3/2) ''interface'' start))
     = [(''chA'', ''5'', - 2), (''chB'', ''8'', 1)]"
  (is "fst ?run = Inr ?v \<and> _")
proof -
  have f: "fst ?run = Inr ?v" by (simp add: run_simps)
  then have run: "?run = (Inr ?v, snd ?run)" by (metis prod.collapse)
  have hd: "hd (new_events start (snd ?run)) = (Get ''dot_solvent'', Returned (PStr ''off''))"
    by (simp add: run_simps)
  have yl: "yielded (new_events start (snd ?run)) = [[(''chA'', ''5'', - 2), (''chB'', ''8'', 1)]]"
    by (simp add: run_simps)
  have a: "''interface'' \<notin> {''tempComplex'', ''chA'', ''chB''}" by simp
  have b: "''cmpx'' \<notin> {''tempComplex'', ''chA'', ''chB'', ''interface'' @ ''1'', ''interface''}"
    by simp
  from interfaceResidues_cleans_up[OF run a b] hd yl f show ?thesis by auto
qed

text \<open>
  As the claim words it, with the selection \<open>selName\<close> the only thing a run adds to the
  state of the host, it fails on an ordinary run: \<^verbatim>\<open>stored.r\<close>, empty before, holds
  the rows of the iteration afterwards.
\<close>

theorem stored_r_left_behind_counterexample:
  "fst (interfaceResidues (demo_host (PStr ''off'') [(''chA'', ''5'', - 2), (''chB'', ''8'', 1)] [])
          float_of_real ''cmpx'' ''c. A'' ''c. B'' (3/2) ''interface'' start)
     = Inr [(''chA'', ''5'', - 2)]
   \<and> stored_r start = []
   \<and> stored_r
        (snd (interfaceResidues (demo_host (PStr ''off'') [(''chA'', ''5'', - 2), (''chB'', ''8'', 1)] [])
          float_of_real ''cmpx'' ''c. A'' ''c. B'' (3/2) ''interface'' start))
     = [(''chA'', ''5'', - 2), (''chB'', ''8'', 1)]"
  by (simp add: run_simps)

subsection \<open>The calls of hydrophobicity\<close>

lemma hydrophobicity_as_calls:
  "hydrophobicity h s = then_do (do_all h (hydrophobicity_calls s)) (\<lambda>_. ret PNone)"
  by (simp add: hydrophobicity_def hydrophobicity_calls_def colour_table_def
        residue_selection_def Let_def)

lemma colours_after_untouched:
  "(\<And>name sel. Color name sel \<in> set cs \<Longrightarrow> \<not> selects sel a) \<Longrightarrow>
     colours_after selects cs col a = col a"
proof (induction selects cs col rule: colours_after.induct)
  case (1 selects col)
  show ?case by simp
next
  case (2 selects name sel cs col)
  have "\<not> selects sel a" by (rule "2.prems"[of name sel]) simp
  moreover have "colours_after selects cs (\<lambda>a. if selects sel a then name else col a) a
      = (\<lambda>a. if selects sel a then name else col a) a"
  proof (rule "2.IH")
    fix name' sel' assume "Color name' sel' \<in> set cs"
    then show "\<not> selects sel' a" by (intro "2.prems"[of name' sel']) simp
  qed
  ultimately show ?case by simp
qed (simp_all)

lemma Color_in_calls:
  "Color name sel \<in> set (hydrophobicity_calls s) \<Longrightarrow>
     \<exists>x\<in>set (map fst colour_table). sel = residue_selection s x"
proof -
  assume "Color name sel \<in> set (hydrophobicity_calls s)"
  then obtain x rgb where "(x, rgb) \<in> set colour_table" "sel = residue_selection s x"
    by (auto simp: hydrophobicity_calls_def)
  then have "x \<in> set (map fst colour_table)" "sel = residue_selection s x"
    by (force, simp)
  then show ?thesis by blast
qed

lemma colour_table_names:
  "length colour_table = 20 \<and> distinct (map fst colour_table)
   \<and> set (map fst colour_table) =
       {''ala'', ''arg'', ''asn'', ''asp'', ''cys'', ''gln'', ''glu'', ''gly'', ''his'', ''ile'',
        ''leu'', ''lys'', ''met'', ''phe'', ''pro'', ''ser'', ''thr'', ''trp'', ''tyr'', ''val''}"
  by (auto simp: colour_table_def)

text \<open>
  \<open>hydrophobicity\<close> prints the selection, defines twenty colours and issues one
  \<^verbatim>\<open>color\<close> call for each of the twenty standard residue names, on the selection
  \<^verbatim>\<open>(s and resn x)\<close>; a run the host cuts short issued a prefix of these calls.
  Where the host reads \<^verbatim>\<open>(s and resn x)\<close> as selecting only atoms of \<open>s\<close> whose
  residue is \<open>x\<close>, as for a selection that is a single term, an atom outside \<open>s\<close>, or
  with a residue that is none of the twenty, keeps its colour.
\<close>

theorem hydrophobicity_colours_selection_only:
  assumes "hydrophobicity h s w = (r, w')"
    and "\<forall>x\<in>set (map fst colour_table). \<forall>b.
           selects (residue_selection s x) b \<longrightarrow> selects s b \<and> has_resn b x"
    and "\<not> selects s a \<or> (\<forall>x\<in>set (map fst colour_table). \<not> has_resn a x)"
  shows "prefix (commands (new_events w w')) (hydrophobicity_calls s)
       \<and> ((\<exists>v. r = Inr v) \<longrightarrow> r = Inr PNone \<and> commands (new_events w w') = hydrophobicity_calls s)
       \<and> length colour_table = 20 \<and> distinct (map fst colour_table)
       \<and> set (map fst colour_table) =
           {''ala'', ''arg'', ''asn'', ''asp'', ''cys'', ''gln'', ''glu'', ''gly'', ''his'', ''ile'',
            ''leu'', ''lys'', ''met'', ''phe'', ''pro'', ''ser'', ''thr'', ''trp'', ''tyr'', ''val''}
       \<and> colours_after selects (commands (new_events w w')) col a = col a"
proof -
  obtain r1 w1 where d: "do_all h (hydrophobicity_calls s) w = (r1, w1)"
    by (cases "do_all h (hydrophobicity_calls s) w")
  from do_all_trace[OF d] obtain t where
    t: "issued w1 = issued w @ t" "prefix (commands t) (hydrophobicity_calls s)"
       "\<forall>u. r1 = Inr u \<longrightarrow> commands t = hydrophobicity_calls s"
    by blast
  have w1: "w' = w1" and r: "r = (case r1 of Inl e \<Rightarrow> Inl e | Inr u \<Rightarrow> Inr PNone)"
    using assms(1) d
    by (auto simp: hydrophobicity_as_calls then_do_def ret_def split: sum.splits)
  have ne: "new_events w w' = t" using t(1) w1 by (simp add: new_events_append)
  have "colours_after selects (commands t) col a = col a"
  proof (rule colours_after_untouched)
    fix name sel assume "Color name sel \<in> set (commands t)"
    with t(2) have "Color name sel \<in> set (hydrophobicity_calls s)"
      using set_mono_prefix by blast
    then obtain x where x: "x \<in> set (map fst colour_table)" "sel = residue_selection s x"
      using Color_in_calls by blast
    show "\<not> selects sel a"
    proof
      assume "selects sel a"
      with x assms(2) have "selects s a" "has_resn a x" by blast+
      with assms(3) x(1) show False by blast
    qed
  qed
  moreover have "(\<exists>v. r = Inr v) \<longrightarrow> r = Inr PNone \<and> commands t = hydrophobicity_calls s"
    using r t(3) by (auto split: sum.splits)
  ultimately show ?thesis
    using t(2) ne colour_table_names by simp
qed

lemma demo_host_call:
  "call (demo_host ds rows []) c w
     = (Inr (case c of Get x \<Rightarrow> ds | _ \<Rightarrow> PNone),
        w\<lparr>host_state := (),
          issued := issued w @ [(c, Returned (case c of Get x \<Rightarrow> ds | _ \<Rightarrow> PNone))]\<rparr>)"
  by (simp add: call_def demo_host_def)

lemma demo_host_do_all:
  "do_all (demo_host ds rows []) cs w
     = (Inr (), w\<lparr>host_state := (),
          issued := issued w @ map (\<lambda>c. (c, Returned (case c of Get x \<Rightarrow> ds | _ \<Rightarrow> PNone))) cs\<rparr>)"
proof (induction cs arbitrary: w)
  case Nil
  show ?case by (simp add: ret_def)
next
  case (Cons c cs)
  show ?case by (simp add: then_do_def demo_host_call Cons.IH)
qed

theorem hydrophobicity_colours_selection_only_witness:
  "fst (hydrophobicity (demo_host PNone [] []) ''all'' start) = Inr PNone
   \<and> commands (new_events start (snd (hydrophobicity (demo_host PNone [] []) ''all'' start)))
       = hydrophobicity_calls ''all''
   \<and> colours_after demo_selects
        (commands (new_events start (snd (hydrophobicity (demo_host PNone [] []) ''all'' start))))
        (\<lambda>a. ''grey'') (True, ''hoh'') = ''grey''
   \<and> colours_after demo_selects (hydrophobicity_calls ''all'') (\<lambda>a. ''grey'') (True, ''ile'')
       = ''color_ile3''
   \<and> colours_after demo_selects (hydrophobicity_calls ''all'') (\<lambda>a. ''grey'') (False, ''ile'')
       = ''grey''"
  (is "fst ?run = _ \<and> _")
proof -
  have f: "fst ?run = Inr PNone"
    by (simp add: hydrophobicity_as_calls then_do_def demo_host_do_all ret_def)
  have run: "?run = (fst ?run, snd ?run)" by simp
  have reads: "\<forall>x\<in>set (map fst colour_table). \<forall>b.
      demo_selects (residue_selection ''all'' x) b \<longrightarrow> demo_selects ''all'' b \<and> snd b = x"
    by (simp add: demo_selects_def residue_selection_def)
  have out: "\<not> demo_selects ''all'' (True, ''hoh'')
      \<or> (\<forall>x\<in>set (map fst colour_table). \<not> snd (True, ''hoh'') = x)"
    by (simp add: colour_table_def)
  have inside: "colours_after demo_selects (hydrophobicity_calls ''all'') (\<lambda>a. ''grey'') (True, ''ile'')
       = ''color_ile3''"
    by (simp add: hydrophobicity_calls_def colour_table_def demo_selects_def residue_selection_def)
  have outside: "colours_after demo_selects (hydrophobicity_calls ''all'') (\<lambda>a. ''grey'') (False, ''ile'')
       = ''grey''"
    by (simp add: hydrophobicity_calls_def colour_table_def demo_selects_def residue_selection_def)
  note th = hydrophobicity_colours_selection_only[where selects = demo_selects
      and has_resn = "\<lambda>b x. snd b = x" and s = "''all''" and a = "(True, ''hoh'')"
      and col = "\<lambda>a. ''grey''", OF run reads out]
  from th[THEN conjunct2, THEN conjunct1] f
  have cmds: "commands (new_events start (snd ?run)) = hydrophobicity_calls ''all''"
    by blast
  note keeps = th[THEN conjunct2, THEN conjunct2, THEN conjunct2, THEN conjunct2, THEN conjunct2]
  from f cmds keeps inside outside show ?thesis by (intro conjI)
qed

lemma commands_of_answers: "commands (map (\<lambda>c. (c, f c)) cs) = cs"
  by (simp add: commands_def comp_def)

lemma demo_host_hydrophobicity:
  "hydrophobicity (demo_host PNone [] []) s start
     = (Inr PNone,
        start\<lparr>host_state := (),
               issued := issued start
                 @ map (\<lambda>c. (c, Returned (case c of Get x \<Rightarrow> PNone | _ \<Rightarrow> PNone)))
                     (hydrophobicity_calls s)\<rparr>)"
  by (simp add: hydrophobicity_as_calls then_do_def demo_host_do_all ret_def)

text \<open>
  Claim C8 does not hold of the code for a selection with an \<^verbatim>\<open>or\<close> in it.  The
  selection is pasted into \<^verbatim>\<open>(s and resn x)\<close> without parentheses of its own
  (\<open>interfaceResidues\<close>, lines 72 to 83, parenthesises the selections it pastes).  Under
  a reading in which \<^verbatim>\<open>and\<close> binds tighter than \<^verbatim>\<open>or\<close>, the calls for
  \<^verbatim>\<open>chain A or chain B\<close> select all of chain A each time: a water of chain A, which
  lies in the selection and is none of the twenty residues, is recoloured and ends with
  the colour of the last call.
\<close>

theorem hydrophobicity_compound_selection_recolours:
  "fst (hydrophobicity (demo_host PNone [] []) ''chain A or chain B'' start) = Inr PNone
   \<and> commands (new_events start
        (snd (hydrophobicity (demo_host PNone [] []) ''chain A or chain B'' start)))
       = hydrophobicity_calls ''chain A or chain B''
   \<and> and_over_or ''chain A or chain B'' (''A'', ''hoh'')
   \<and> ''hoh'' \<notin> set (map fst colour_table)
   \<and> colours_after and_over_or
        (commands (new_events start
           (snd (hydrophobicity (demo_host PNone [] []) ''chain A or chain B'' start))))
        (\<lambda>a. ''grey'') (''A'', ''hoh'')
       = ''color_arg3''"
proof -
  have c: "commands (new_events start
        (snd (hydrophobicity (demo_host PNone [] []) ''chain A or chain B'' start)))
       = hydrophobicity_calls ''chain A or chain B''"
    by (simp add: demo_host_hydrophobicity new_events_def commands_of_answers)
  have f: "fst (hydrophobicity (demo_host PNone [] []) ''chain A or chain B'' start) = Inr PNone"
    by (simp add: demo_host_hydrophobicity)
  have inside: "and_over_or ''chain A or chain B'' (''A'', ''hoh'')"
    by (simp add: and_over_or_def strip_parens_def term_holds_def)
  have other: "''hoh'' \<notin> set (map fst colour_table)"
    by (simp add: colour_table_def)
  have "colours_after and_over_or (hydrophobicity_calls ''chain A or chain B'')
          (\<lambda>a. ''grey'') (''A'', ''hoh'') = ''color_arg3''"
    by (simp add: hydrophobicity_calls_def colour_table_def residue_selection_def
          and_over_or_def strip_parens_def term_holds_def)
  with c f inside other show ?thesis by (simp only: simp_thms)
qed

end
